theory Spec2Isabelle
  imports Complex_Main "HOL-Library.Word" "HOL-Library.Sublist"
begin

unbundle bit_operations_syntax

section \<open>JavaScript values used by the cryptography layer\<close>

text \<open>
  A JavaScript string is a sequence of 16-bit code units: \<open>length\<close>, \<open>charCodeAt\<close>,
  \<open>split('')\<close> and the regular expressions of the source all work on code units.
  A \<open>Uint8Array\<close> (and the \<open>Uint8ClampedArray\<close> of canvas image data) is a list
  of bytes. \<open>js\<close> writes a string literal of the source.
\<close>

type_synonym u8 = "8 word"
type_synonym u16 = "16 word"
type_synonym jsstring = "u16 list"
type_synonym bytes = "u8 list"

definition js :: "string \<Rightarrow> jsstring" where
  "js s = map of_char s"

text \<open>
  \<open>ToInt32\<close> is the conversion every bitwise operator of JavaScript applies to its
  operands and result; \<open>shl x n\<close> is \<open>x << n\<close>. The integers the source computes with
  stay far below \<open>2^53\<close>, where the floating-point numbers of JavaScript are exact, so
  they are modelled as \<open>int\<close>.
\<close>

definition ToInt32 :: "int \<Rightarrow> int" where
  "ToInt32 x = sint (word_of_int x :: 32 word)"

definition shl :: "int \<Rightarrow> nat \<Rightarrow> int" where
  "shl x n = ToInt32 (ToInt32 x * 2 ^ (n mod 32))"

text \<open>
  \<open>Number.prototype.toString(radix)\<close> on a non-negative integer, and
  \<open>String.prototype.padStart\<close> with a one-character filler.
\<close>

definition digit_char :: "nat \<Rightarrow> u16" where
  "digit_char d = (if d < 10 then of_nat (48 + d) else of_nat (87 + d))"

function toString_radix :: "nat \<Rightarrow> nat \<Rightarrow> jsstring" where
  "toString_radix r n =
     (if n < r \<or> r < 2 then [digit_char n]
      else toString_radix r (n div r) @ [digit_char (n mod r)])"
  by pat_completeness auto
termination
  by (relation "measure snd") auto

declare toString_radix.simps [simp del]

definition padStart :: "nat \<Rightarrow> u16 \<Rightarrow> jsstring \<Rightarrow> jsstring" where
  "padStart targetLength c s = replicate (targetLength - length s) c @ s"

lemma replicate_numeral: "replicate (numeral k) x = x # replicate (pred_numeral k) x"
  by (simp add: numeral_eq_Suc)

lemma length_padStart: "length (padStart n c s) = max n (length s)"
  by (simp add: padStart_def)

lemma ToInt32_range: "- 2147483648 \<le> ToInt32 x \<and> ToInt32 x < 2147483648"
  using sint_ge [of "word_of_int x :: 32 word"] sint_lt [of "word_of_int x :: 32 word"]
  by (simp add: ToInt32_def)

lemma ToInt32_cong:
  "(word_of_int a :: 32 word) = word_of_int b \<Longrightarrow> ToInt32 a = ToInt32 b"
  by (simp add: ToInt32_def)

lemma word_of_ToInt32: "(word_of_int (ToInt32 a) :: 32 word) = word_of_int a"
  by (simp add: ToInt32_def)

lemma ToInt32_id: "- 2147483648 \<le> x \<Longrightarrow> x < 2147483648 \<Longrightarrow> ToInt32 x = x"
  unfolding ToInt32_def
  by (simp add: sint_sbintrunc' signed_take_bit_int_eq_self)

lemma length_toString_radix:
  "2 \<le> r \<Longrightarrow> n < r ^ Suc k \<Longrightarrow> length (toString_radix r n) \<le> Suc k"
proof (induction k arbitrary: n)
  case 0
  then show ?case by (simp add: toString_radix.simps)
next
  case (Suc k)
  show ?case
  proof (cases "n < r")
    case True
    then show ?thesis by (simp add: toString_radix.simps)
  next
    case False
    have "n div r < r ^ Suc k"
      using Suc.prems by (simp add: less_mult_imp_div_less mult.commute)
    from Suc.IH [OF Suc.prems(1) this] False Suc.prems(1) show ?thesis
      by (subst toString_radix.simps) simp
  qed
qed


section \<open>The legacy checksum \<open>hashMD5\<close>\<close>

text \<open>
  \<^verbatim>\<open>
  export function hashMD5(text: string): string {
    let hash = 0;
    if (text.length === 0) return hash.toString();
    for (let i = 0; i < text.length; i++) {
      const char = text.charCodeAt(i);
      hash = ((hash << 5) - hash) + char;
      hash = hash & hash; // Convert to 32bit integer
    }
    return Math.abs(hash).toString(16).padStart(8, '0');
  }
  \<close>
  \<open>hash_loop\<close> is the \<open>for\<close> loop, started at the running value of \<open>hash\<close>;
  \<open>hash & hash\<close> is \<open>ToInt32\<close>.
\<close>

fun hash_loop :: "int \<Rightarrow> jsstring \<Rightarrow> int" where
  "hash_loop hash [] = hash"
| "hash_loop hash (char # rest) =
     hash_loop (ToInt32 ((shl hash 5 - hash) + uint char)) rest"

definition hashMD5 :: "jsstring \<Rightarrow> jsstring" where
  "hashMD5 text =
     (if length text = 0 then toString_radix 10 0
      else padStart 8 0x30 (toString_radix 16 (nat \<bar>hash_loop 0 text\<bar>)))"

text \<open>
  The reading of the result the specification gives: a rolling hash
  \<open>h \<mapsto> 31 h + c\<close> over the code units, kept to 32 bits, written in hexadecimal.
  \<open>polynomial31\<close> is that hash before it is cut to 32 bits, \<open>radix_value\<close> reads a
  digit string back.
\<close>

definition polynomial31 :: "jsstring \<Rightarrow> int" where
  "polynomial31 text = foldl (\<lambda>h c. 31 * h + uint c) 0 text"

definition is_hex_digit :: "u16 \<Rightarrow> bool" where
  "is_hex_digit c = ((0x30 \<le> c \<and> c \<le> 0x39) \<or> (0x61 \<le> c \<and> c \<le> 0x66))"

definition digit_value :: "u16 \<Rightarrow> nat" where
  "digit_value c = (if c \<le> 0x39 then unat c - 48 else unat c - 87)"

definition radix_value :: "nat \<Rightarrow> jsstring \<Rightarrow> nat" where
  "radix_value r s = foldl (\<lambda>a c. a * r + digit_value c) 0 s"

lemma hash_loop_range:
  "- 2147483648 \<le> h \<Longrightarrow> h < 2147483648 \<Longrightarrow>
   - 2147483648 \<le> hash_loop h s \<and> hash_loop h s < 2147483648"
  by (induction s arbitrary: h) (simp_all add: ToInt32_range)

lemma hash_loop_word:
  "(word_of_int a :: 32 word) = word_of_int b \<Longrightarrow>
   (word_of_int (hash_loop a s) :: 32 word) = word_of_int (foldl (\<lambda>h c. 31 * h + uint c) b s)"
proof (induction s arbitrary: a b)
  case Nil
  then show ?case by simp
next
  case (Cons c cs)
  have "(word_of_int (ToInt32 ((shl a 5 - a) + uint c)) :: 32 word) = word_of_int (31 * b + uint c)"
    using Cons.prems by (simp add: word_of_ToInt32 shl_def wi_hom_syms)
  from Cons.IH [OF this] show ?case by simp
qed

lemma hash_loop_polynomial: "hash_loop 0 s = ToInt32 (polynomial31 s)"
proof -
  have "hash_loop 0 s = ToInt32 (hash_loop 0 s)"
    using hash_loop_range [of 0 s] by (simp add: ToInt32_id)
  also have "\<dots> = ToInt32 (polynomial31 s)"
    unfolding polynomial31_def by (rule ToInt32_cong) (rule hash_loop_word, simp)
  finally show ?thesis .
qed

lemma radix_value_append:
  "radix_value r (s @ [c]) = radix_value r s * r + digit_value c"
  by (simp add: radix_value_def)

lemma unat_digit_char:
  "d < 16 \<Longrightarrow> unat (digit_char d) = (if d < 10 then 48 + d else 87 + d)"
  by (simp add: digit_char_def unat_of_nat del: of_nat_add)

lemma digit_value_digit_char: "d < 16 \<Longrightarrow> digit_value (digit_char d) = d"
  by (simp add: digit_value_def word_le_nat_alt unat_digit_char)

lemma is_hex_digit_digit_char: "d < 16 \<Longrightarrow> is_hex_digit (digit_char d)"
  by (simp add: is_hex_digit_def word_le_nat_alt unat_digit_char)

lemma radix_value_toString_radix:
  "radix_value 16 (toString_radix 16 n) = n"
proof (induction n rule: less_induct)
  case (less n)
  show ?case
  proof (cases "n < 16")
    case True
    then show ?thesis
      by (simp add: toString_radix.simps radix_value_def digit_value_digit_char)
  next
    case False
    then have "n div 16 < n" by simp
    from less.IH [OF this] False show ?thesis
      by (subst toString_radix.simps) (simp add: radix_value_append digit_value_digit_char)
  qed
qed

lemma hex_toString_radix: "list_all is_hex_digit (toString_radix 16 n)"
proof (induction n rule: less_induct)
  case (less n)
  show ?case
  proof (cases "n < 16")
    case True
    then show ?thesis by (simp add: toString_radix.simps is_hex_digit_digit_char)
  next
    case False
    then have "n div 16 < n" by simp
    from less.IH [OF this] False show ?thesis
      by (subst toString_radix.simps) (simp add: is_hex_digit_digit_char)
  qed
qed

lemma radix_value_replicate_zero:
  "radix_value r (replicate k 0x30 @ s) = radix_value r s"
  by (induction k) (simp_all add: radix_value_def digit_value_def)

lemma hex_replicate_zero: "list_all is_hex_digit (replicate k 0x30)"
  by (induction k) (simp_all add: is_hex_digit_def)

lemma hashMD5_structure:
  assumes "s \<noteq> []"
  shows "length (hashMD5 s) = 8"
    and "list_all is_hex_digit (hashMD5 s)"
    and "radix_value 16 (hashMD5 s) = nat \<bar>ToInt32 (polynomial31 s)\<bar>"
proof -
  let ?h = "hash_loop 0 s"
  have r: "- 2147483648 \<le> ?h \<and> ?h < 2147483648"
    by (rule hash_loop_range) simp_all
  then have "nat \<bar>?h\<bar> < 16 ^ Suc 7" by simp linarith
  then have "length (toString_radix 16 (nat \<bar>?h\<bar>)) \<le> Suc 7"
    by (intro length_toString_radix) simp_all
  with assms show "length (hashMD5 s) = 8"
    by (simp add: hashMD5_def length_padStart)
  show "list_all is_hex_digit (hashMD5 s)"
    using assms by (simp add: hashMD5_def padStart_def hex_toString_radix hex_replicate_zero)
  show "radix_value 16 (hashMD5 s) = nat \<bar>ToInt32 (polynomial31 s)\<bar>"
    using assms
    by (simp add: hashMD5_def padStart_def radix_value_replicate_zero
        radix_value_toString_radix hash_loop_polynomial)
qed

text \<open>
  Claim C8, as the code has it. The early return for the empty text gives the
  one-character string \<open>0\<close>, not eight digits. For every non-empty text the result
  has exactly eight characters, all of them lower-case hexadecimal digits, and read
  as a hexadecimal number it is the absolute value of the 32-bit rolling hash
  (\<open>polynomial31\<close> cut to a signed 32-bit integer).
\<close>

theorem hashMD5_width:
  "hashMD5 [] = js ''0'' \<and>
   (s \<noteq> [] \<longrightarrow>
      length (hashMD5 s) = 8 \<and> list_all is_hex_digit (hashMD5 s) \<and>
      radix_value 16 (hashMD5 s) = nat \<bar>ToInt32 (polynomial31 s)\<bar>)"
proof -
  have "hashMD5 [] = js ''0''"
    by (simp add: hashMD5_def js_def digit_char_def toString_radix.simps)
  with hashMD5_structure [of s] show ?thesis by blast
qed

theorem hashMD5_width_witness:
  "hashMD5 [] = js ''0'' \<and> js ''abc'' \<noteq> [] \<and>
   length (hashMD5 (js ''abc'')) = 8 \<and> list_all is_hex_digit (hashMD5 (js ''abc'')) \<and>
   radix_value 16 (hashMD5 (js ''abc'')) = nat \<bar>ToInt32 (polynomial31 (js ''abc''))\<bar> \<and>
   hashMD5 (js ''abc'') = js ''00017862''"
proof -
  have e: "hashMD5 (js ''abc'') = js ''00017862''"
    by (simp add: hashMD5_def js_def digit_char_def padStart_def ToInt32_def shl_def
        toString_radix.simps replicate_numeral)
  show ?thesis
    using hashMD5_width [of "js ''abc''"] e by (simp add: js_def)
qed

text \<open>
  Claim C8 as stated fails at the empty text: \<open>hashMD5("")\<close> is \<open>"0"\<close>, one
  character wide.
\<close>

theorem hashMD5_empty_counterexample:
  "\<not> (length (hashMD5 (js '''')) = 8)"
  by (simp add: hashMD5_def js_def toString_radix.simps)


section \<open>Password strength analysis\<close>

text \<open>
  The entropy estimate is a JavaScript number. Its special values decide what the
  empty password yields, so a number is a real or one of the three special values of
  IEEE 754; the rounding of finite results is not modelled. \<open>Math_log2\<close> is
  \<open>Math.log2\<close> on the non-negative integers the source applies it to, \<open>js_times\<close>
  is \<open>*\<close>.
\<close>

datatype jsnum = Num real | PosInfinity | NegInfinity | NaN

fun js_times :: "jsnum \<Rightarrow> jsnum \<Rightarrow> jsnum" where
  "js_times NaN _ = NaN"
| "js_times _ NaN = NaN"
| "js_times (Num a) (Num b) = Num (a * b)"
| "js_times (Num a) PosInfinity =
     (if a = 0 then NaN else if 0 < a then PosInfinity else NegInfinity)"
| "js_times (Num a) NegInfinity =
     (if a = 0 then NaN else if 0 < a then NegInfinity else PosInfinity)"
| "js_times PosInfinity (Num b) =
     (if b = 0 then NaN else if 0 < b then PosInfinity else NegInfinity)"
| "js_times NegInfinity (Num b) =
     (if b = 0 then NaN else if 0 < b then NegInfinity else PosInfinity)"
| "js_times PosInfinity PosInfinity = PosInfinity"
| "js_times PosInfinity NegInfinity = NegInfinity"
| "js_times NegInfinity PosInfinity = NegInfinity"
| "js_times NegInfinity NegInfinity = PosInfinity"

definition Math_log2 :: "nat \<Rightarrow> jsnum" where
  "Math_log2 n = (if n = 0 then NegInfinity else Num (log 2 (real n)))"

text \<open>
  The four regular-expression tests of the source, \<open>/[a-z]/\<close>, \<open>/[A-Z]/\<close>,
  \<open>/[0-9]/\<close> and \<open>/[^A-Za-z0-9]/\<close>: each holds when some code unit of the
  password is in the class.
\<close>

definition test_lower :: "jsstring \<Rightarrow> bool" where
  "test_lower password = list_ex (\<lambda>c. 0x61 \<le> c \<and> c \<le> 0x7A) password"

definition test_upper :: "jsstring \<Rightarrow> bool" where
  "test_upper password = list_ex (\<lambda>c. 0x41 \<le> c \<and> c \<le> 0x5A) password"

definition test_digit :: "jsstring \<Rightarrow> bool" where
  "test_digit password = list_ex (\<lambda>c. 0x30 \<le> c \<and> c \<le> 0x39) password"

definition test_symbol :: "jsstring \<Rightarrow> bool" where
  "test_symbol password =
     list_ex (\<lambda>c. \<not> ((0x41 \<le> c \<and> c \<le> 0x5A) \<or> (0x61 \<le> c \<and> c \<le> 0x7A) \<or>
                       (0x30 \<le> c \<and> c \<le> 0x39))) password"

text \<open>
  \<^verbatim>\<open>
  export function analyzePasswordStrength(password: string): {
    score: number; strength: 'weak' | 'fair' | 'good' | 'strong' | 'excellent';
    entropy: number; feedback: string[];
  } {
    let score = 0;
    const feedback: string[] = [];
    if (password.length >= 8) score += 1;
    else feedback.push('Use at least 8 characters');
    if (password.length >= 12) score += 1;
    if (password.length >= 16) score += 1;
    if (/[a-z]/.test(password)) score += 1;
    else feedback.push('Include lowercase letters');
    if (/[A-Z]/.test(password)) score += 1;
    else feedback.push('Include uppercase letters');
    if (/[0-9]/.test(password)) score += 1;
    else feedback.push('Include numbers');
    if (/[^A-Za-z0-9]/.test(password)) score += 1;
    else feedback.push('Include special characters');
    const charSetSize =
      (/[a-z]/.test(password) ? 26 : 0) + (/[A-Z]/.test(password) ? 26 : 0) +
      (/[0-9]/.test(password) ? 10 : 0) + (/[^A-Za-z0-9]/.test(password) ? 32 : 0);
    const entropy = password.length * Math.log2(charSetSize);
    let strength;
    if (score <= 2) strength = 'weak';
    else if (score <= 4) strength = 'fair';
    else if (score <= 5) strength = 'good';
    else if (score <= 6) strength = 'strong';
    else strength = 'excellent';
    return { score, strength, entropy, feedback };
  }
  \<close>
  The pair threaded through the checks is \<open>(score, feedback)\<close>: \<open>award\<close> is an
  \<open>if\<close> without \<open>else\<close>, \<open>award_or_advise\<close> one whose \<open>else\<close> pushes a
  feedback line.
\<close>

datatype strength_label = Weak | Fair | Good | Strong | Excellent

record strength_report =
  score :: nat
  strength :: strength_label
  entropy :: jsnum
  feedback :: "jsstring list"

definition award :: "bool \<Rightarrow> nat \<times> jsstring list \<Rightarrow> nat \<times> jsstring list" where
  "award ok st = (if ok then (fst st + 1, snd st) else st)"

definition award_or_advise ::
  "bool \<Rightarrow> jsstring \<Rightarrow> nat \<times> jsstring list \<Rightarrow> nat \<times> jsstring list" where
  "award_or_advise ok advice st =
     (if ok then (fst st + 1, snd st) else (fst st, snd st @ [advice]))"

definition charSetSize :: "jsstring \<Rightarrow> nat" where
  "charSetSize password =
     (if test_lower password then 26 else 0) +
     (if test_upper password then 26 else 0) +
     (if test_digit password then 10 else 0) +
     (if test_symbol password then 32 else 0)"

definition analyzePasswordStrength :: "jsstring \<Rightarrow> strength_report" where
  "analyzePasswordStrength password =
     (let st = (0, []);
          st = award_or_advise (8 \<le> length password) (js ''Use at least 8 characters'') st;
          st = award (12 \<le> length password) st;
          st = award (16 \<le> length password) st;
          st = award_or_advise (test_lower password) (js ''Include lowercase letters'') st;
          st = award_or_advise (test_upper password) (js ''Include uppercase letters'') st;
          st = award_or_advise (test_digit password) (js ''Include numbers'') st;
          st = award_or_advise (test_symbol password) (js ''Include special characters'') st;
          score = fst st;
          entropy = js_times (Num (real (length password))) (Math_log2 (charSetSize password));
          strength =
            (if score \<le> 2 then Weak
             else if score \<le> 4 then Fair
             else if score \<le> 5 then Good
             else if score \<le> 6 then Strong
             else Excellent)
      in \<lparr>score = score, strength = strength, entropy = entropy, feedback = snd st\<rparr>)"

lemma fst_award: "fst (award ok st) = fst st + of_bool ok"
  by (simp add: award_def)

lemma fst_award_or_advise: "fst (award_or_advise ok advice st) = fst st + of_bool ok"
  by (simp add: award_or_advise_def)

lemma score_formula:
  "score (analyzePasswordStrength p) =
     of_bool (8 \<le> length p) + of_bool (12 \<le> length p) + of_bool (16 \<le> length p) +
     of_bool (test_lower p) + of_bool (test_upper p) + of_bool (test_digit p) +
     of_bool (test_symbol p)"
  by (simp add: analyzePasswordStrength_def Let_def fst_award fst_award_or_advise)

lemma charSetSize_formula:
  "charSetSize p =
     26 * of_bool (test_lower p) + 26 * of_bool (test_upper p) +
     10 * of_bool (test_digit p) + 32 * of_bool (test_symbol p)"
  by (simp add: charSetSize_def)

lemma entropy_formula:
  "entropy (analyzePasswordStrength p) =
     js_times (Num (real (length p))) (Math_log2 (charSetSize p))"
  by (simp add: analyzePasswordStrength_def Let_def)

lemma strength_formula:
  "strength (analyzePasswordStrength p) =
     (let s = score (analyzePasswordStrength p) in
      if s \<le> 2 then Weak else if s \<le> 4 then Fair else if s \<le> 5 then Good
      else if s \<le> 6 then Strong else Excellent)"
  by (simp add: analyzePasswordStrength_def Let_def)

lemma tests_Tr0ub4dor:
  "test_lower (js ''Tr0ub4dor&3'')" "test_upper (js ''Tr0ub4dor&3'')"
  "test_digit (js ''Tr0ub4dor&3'')" "test_symbol (js ''Tr0ub4dor&3'')"
  "length (js ''Tr0ub4dor&3'') = 11"
  by (simp_all add: js_def test_lower_def test_upper_def test_digit_def test_symbol_def)

lemma log2_94_bounds: "721 < 110 * log 2 94" "110 * log 2 94 < 722"
proof -
  have a: "log 2 (94 ^ 110) = 110 * log 2 94"
    using log_nat_power [of 94 2 110] by simp
  have b: "log 2 (2 ^ 721) = 721" "log 2 (2 ^ 722) = 722"
    using log_nat_power [of 2 2 721] log_nat_power [of 2 2 722] by simp_all
  have "log 2 (2 ^ 721) < log 2 (94 ^ 110)"
    by (subst log_less_cancel_iff) simp_all
  with a b show "721 < 110 * log 2 94" by simp
  have "log 2 (94 ^ 110) < log 2 (2 ^ 722)"
    by (subst log_less_cancel_iff) simp_all
  with a b show "110 * log 2 94 < 722" by simp
qed

lemma Tr0ub4dor_report:
  "score (analyzePasswordStrength (js ''Tr0ub4dor&3'')) = 5"
  "strength (analyzePasswordStrength (js ''Tr0ub4dor&3'')) = Good"
  "entropy (analyzePasswordStrength (js ''Tr0ub4dor&3'')) = Num (11 * log 2 94)"
  by (simp_all add: score_formula strength_formula entropy_formula charSetSize_def
      Math_log2_def tests_Tr0ub4dor)

lemma charSetSize_pos: "p \<noteq> [] \<Longrightarrow> 10 \<le> charSetSize p"
  by (cases p)
    (auto simp: charSetSize_def test_lower_def test_upper_def test_digit_def test_symbol_def)


lemma strength_tiers:
  fixes p defines "r \<equiv> analyzePasswordStrength p"
  shows "(score r \<le> 2 \<longrightarrow> strength r = Weak) \<and>
         (3 \<le> score r \<and> score r \<le> 4 \<longrightarrow> strength r = Fair) \<and>
         (score r = 5 \<longrightarrow> strength r = Good) \<and>
         (score r = 6 \<longrightarrow> strength r = Strong) \<and>
         (7 \<le> score r \<longrightarrow> strength r = Excellent)"
  unfolding r_def strength_formula [of p] Let_def by auto

lemma test_lower_iff:
  "test_lower p = (\<exists>c \<in> set p. 97 \<le> unat c \<and> unat c \<le> 122)"
  by (simp add: test_lower_def list_ex_iff word_le_nat_alt)

lemma test_upper_iff:
  "test_upper p = (\<exists>c \<in> set p. 65 \<le> unat c \<and> unat c \<le> 90)"
  by (simp add: test_upper_def list_ex_iff word_le_nat_alt)

lemma test_digit_iff:
  "test_digit p = (\<exists>c \<in> set p. 48 \<le> unat c \<and> unat c \<le> 57)"
  by (simp add: test_digit_def list_ex_iff word_le_nat_alt)

lemma test_symbol_iff:
  "test_symbol p =
     (\<exists>c \<in> set p. \<not> (97 \<le> unat c \<and> unat c \<le> 122) \<and> \<not> (65 \<le> unat c \<and> unat c \<le> 90) \<and>
                     \<not> (48 \<le> unat c \<and> unat c \<le> 57))"
  by (simp add: test_symbol_def list_ex_iff word_le_nat_alt) blast

lemma report_12345678:
  "score (analyzePasswordStrength (js ''12345678'')) = 2"
  "strength (analyzePasswordStrength (js ''12345678'')) = Weak"
  "feedback (analyzePasswordStrength (js ''12345678'')) =
     [js ''Include lowercase letters'', js ''Include uppercase letters'',
      js ''Include special characters'']"
  by (simp_all add: analyzePasswordStrength_def Let_def award_def award_or_advise_def
      test_lower_def test_upper_def test_digit_def test_symbol_def js_def)

text \<open>
  Claim C9. The four classes are read off the code units of the password: a lowercase
  letter is a code unit from 97 to 122 (\<open>a\<close> to \<open>z\<close>), an uppercase letter one from
  65 to 90 (\<open>A\<close> to \<open>Z\<close>), a digit one from 48 to 57 (\<open>0\<close> to \<open>9\<close>), and a symbol
  any other code unit. For every password the score is the number of the seven checks
  that hold (three on the length, one for each class present), the entropy is
  \<open>length * log2(charset)\<close> with the charset summed as 26, 26, 10 and 32 over the
  classes present, and the label follows the score: at most 2 weak, 3 to 4 fair,
  5 good, 6 strong, 7 and more excellent. The password \<open>Tr0ub4dor&3\<close> has score 5,
  label good and entropy \<open>11 * log2(94)\<close>, which lies between 72.1 and 72.2; the
  password \<open>12345678\<close>, which has digits only, has score 2 and label weak.
\<close>

theorem analyzePasswordStrength_report:
  "(let lower = (\<exists>c \<in> set p. 97 \<le> unat c \<and> unat c \<le> 122);
        upper = (\<exists>c \<in> set p. 65 \<le> unat c \<and> unat c \<le> 90);
        digit = (\<exists>c \<in> set p. 48 \<le> unat c \<and> unat c \<le> 57);
        symbol = (\<exists>c \<in> set p. \<not> (97 \<le> unat c \<and> unat c \<le> 122) \<and>
                                \<not> (65 \<le> unat c \<and> unat c \<le> 90) \<and>
                                \<not> (48 \<le> unat c \<and> unat c \<le> 57))
    in score (analyzePasswordStrength p) =
         of_bool (8 \<le> length p) + of_bool (12 \<le> length p) + of_bool (16 \<le> length p) +
         of_bool lower + of_bool upper + of_bool digit + of_bool symbol \<and>
       entropy (analyzePasswordStrength p) =
         js_times (Num (real (length p)))
           (Math_log2 (26 * of_bool lower + 26 * of_bool upper +
                       10 * of_bool digit + 32 * of_bool symbol))) \<and>
   (score (analyzePasswordStrength p) \<le> 2 \<longrightarrow>
      strength (analyzePasswordStrength p) = Weak) \<and>
   (3 \<le> score (analyzePasswordStrength p) \<and> score (analyzePasswordStrength p) \<le> 4 \<longrightarrow>
      strength (analyzePasswordStrength p) = Fair) \<and>
   (score (analyzePasswordStrength p) = 5 \<longrightarrow>
      strength (analyzePasswordStrength p) = Good) \<and>
   (score (analyzePasswordStrength p) = 6 \<longrightarrow>
      strength (analyzePasswordStrength p) = Strong) \<and>
   (7 \<le> score (analyzePasswordStrength p) \<longrightarrow>
      strength (analyzePasswordStrength p) = Excellent) \<and>
   score (analyzePasswordStrength (js ''Tr0ub4dor&3'')) = 5 \<and>
   strength (analyzePasswordStrength (js ''Tr0ub4dor&3'')) = Good \<and>
   entropy (analyzePasswordStrength (js ''Tr0ub4dor&3'')) = Num (11 * log 2 94) \<and>
   72.1 < 11 * log 2 94 \<and> 11 * log 2 94 < 72.2 \<and>
   score (analyzePasswordStrength (js ''12345678'')) = 2 \<and>
   strength (analyzePasswordStrength (js ''12345678'')) = Weak"
proof -
  have "72.1 < 11 * log 2 94" "11 * log 2 94 < 72.2"
    using log2_94_bounds by simp_all
  moreover note strength_tiers [of p] Tr0ub4dor_report report_12345678(1,2)
  moreover have "score (analyzePasswordStrength p) =
       of_bool (8 \<le> length p) + of_bool (12 \<le> length p) + of_bool (16 \<le> length p) +
       of_bool (\<exists>c \<in> set p. 97 \<le> unat c \<and> unat c \<le> 122) +
       of_bool (\<exists>c \<in> set p. 65 \<le> unat c \<and> unat c \<le> 90) +
       of_bool (\<exists>c \<in> set p. 48 \<le> unat c \<and> unat c \<le> 57) +
       of_bool (\<exists>c \<in> set p. \<not> (97 \<le> unat c \<and> unat c \<le> 122) \<and>
                              \<not> (65 \<le> unat c \<and> unat c \<le> 90) \<and>
                              \<not> (48 \<le> unat c \<and> unat c \<le> 57))"
    by (simp only: score_formula test_lower_iff test_upper_iff test_digit_iff test_symbol_iff)
  moreover have "entropy (analyzePasswordStrength p) =
     js_times (Num (real (length p)))
       (Math_log2
         (26 * of_bool (\<exists>c \<in> set p. 97 \<le> unat c \<and> unat c \<le> 122) +
          26 * of_bool (\<exists>c \<in> set p. 65 \<le> unat c \<and> unat c \<le> 90) +
          10 * of_bool (\<exists>c \<in> set p. 48 \<le> unat c \<and> unat c \<le> 57) +
          32 * of_bool (\<exists>c \<in> set p. \<not> (97 \<le> unat c \<and> unat c \<le> 122) \<and>
                                   \<not> (65 \<le> unat c \<and> unat c \<le> 90) \<and>
                                   \<not> (48 \<le> unat c \<and> unat c \<le> 57))))"
    by (simp only: entropy_formula charSetSize_formula test_lower_iff test_upper_iff
        test_digit_iff test_symbol_iff)
  ultimately show ?thesis unfolding Let_def by blast
qed

theorem analyzePasswordStrength_report_witness:
  "score (analyzePasswordStrength (js ''abc'')) = 1 \<and>
   strength (analyzePasswordStrength (js ''abc'')) = Weak \<and>
   score (analyzePasswordStrength (js ''12345678'')) = 2 \<and>
   strength (analyzePasswordStrength (js ''12345678'')) = Weak \<and>
   entropy (analyzePasswordStrength (js ''12345678'')) = Num (8 * log 2 10) \<and>
   score (analyzePasswordStrength (js ''ABCDEFGH'')) = 2 \<and>
   entropy (analyzePasswordStrength (js ''ABCDEFGH'')) = Num (8 * log 2 26) \<and>
   score (analyzePasswordStrength (js ''#!?-+=_/'')) = 2 \<and>
   entropy (analyzePasswordStrength (js ''#!?-+=_/'')) = Num (8 * log 2 32) \<and>
   score (analyzePasswordStrength (js ''abcdefg1'')) = 3 \<and>
   strength (analyzePasswordStrength (js ''abcdefg1'')) = Fair \<and>
   score (analyzePasswordStrength (js ''Tr0ub4dor&3'')) = 5 \<and>
   strength (analyzePasswordStrength (js ''Tr0ub4dor&3'')) = Good \<and>
   score (analyzePasswordStrength (js ''Tr0ub4dor&3x'')) = 6 \<and>
   strength (analyzePasswordStrength (js ''Tr0ub4dor&3x'')) = Strong \<and>
   score (analyzePasswordStrength (js ''Tr0ub4dor&3xxxxx'')) = 7 \<and>
   strength (analyzePasswordStrength (js ''Tr0ub4dor&3xxxxx'')) = Excellent"
  using analyzePasswordStrength_report [of "js ''abc''"]
    analyzePasswordStrength_report [of "js ''12345678''"]
    analyzePasswordStrength_report [of "js ''ABCDEFGH''"]
    analyzePasswordStrength_report [of "js ''#!?-+=_/''"]
    analyzePasswordStrength_report [of "js ''abcdefg1''"]
    analyzePasswordStrength_report [of "js ''Tr0ub4dor&3x''"]
    analyzePasswordStrength_report [of "js ''Tr0ub4dor&3xxxxx''"]
  by (simp add: js_def Math_log2_def)

text \<open>
  Claim C10. A non-empty password passes at least one of the four class tests, so its
  charset size is positive and its entropy is an ordinary number; for the empty
  password the charset size is 0, \<open>Math.log2(0)\<close> is \<open>-Infinity\<close> and the entropy
  \<open>0 * -Infinity\<close> is \<open>NaN\<close>.
\<close>

theorem entropy_defined:
  "(p \<noteq> [] \<longrightarrow>
      (test_lower p \<or> test_upper p \<or> test_digit p \<or> test_symbol p) \<and>
      0 < charSetSize p \<and>
      entropy (analyzePasswordStrength p) =
        Num (real (length p) * log 2 (real (charSetSize p)))) \<and>
   charSetSize [] = 0 \<and> Math_log2 (charSetSize []) = NegInfinity \<and>
   entropy (analyzePasswordStrength []) = NaN"
proof -
  have "charSetSize [] = 0"
    by (simp add: charSetSize_def test_lower_def test_upper_def test_digit_def test_symbol_def)
  moreover from this have "Math_log2 (charSetSize []) = NegInfinity"
    by (simp add: Math_log2_def)
  moreover from this have "entropy (analyzePasswordStrength []) = NaN"
    by (simp add: entropy_formula)
  moreover have "p \<noteq> [] \<Longrightarrow> test_lower p \<or> test_upper p \<or> test_digit p \<or> test_symbol p"
    by (cases p) (auto simp: test_lower_def test_upper_def test_digit_def test_symbol_def)
  moreover have "p \<noteq> [] \<Longrightarrow> 0 < charSetSize p"
    using charSetSize_pos [of p] by simp
  moreover have "p \<noteq> [] \<Longrightarrow> entropy (analyzePasswordStrength p) =
        Num (real (length p) * log 2 (real (charSetSize p)))"
    using charSetSize_pos [of p] by (simp add: entropy_formula Math_log2_def)
  ultimately show ?thesis by blast
qed

theorem entropy_defined_witness:
  "js ''a'' \<noteq> [] \<and> test_lower (js ''a'') \<and> charSetSize (js ''a'') = 26 \<and>
   entropy (analyzePasswordStrength (js ''a'')) = Num (log 2 26) \<and>
   entropy (analyzePasswordStrength []) = NaN"
proof -
  have "charSetSize (js ''a'') = 26" "test_lower (js ''a'')"
    by (simp_all add: js_def charSetSize_def test_lower_def test_upper_def test_digit_def
        test_symbol_def)
  with entropy_defined [of "js ''a''"] show ?thesis
    by (simp add: js_def)
qed



section \<open>The steganographic codec\<close>

text \<open>
  \<^verbatim>\<open>
  const textToBinary = (text: string): string => {
    return text.split('').map(char =>
      char.charCodeAt(0).toString(2).padStart(8, '0')
    ).join('') + '1111111111111110'; // End marker
  };
  \<close>
  \<open>char_bits\<close> is the function mapped over the code units, \<open>payload_bits\<close> the
  joined groups before the end marker is appended.
\<close>

definition endMarker :: jsstring where
  "endMarker = js ''1111111111111110''"

definition char_bits :: "u16 \<Rightarrow> jsstring" where
  "char_bits char = padStart 8 0x30 (toString_radix 2 (unat char))"

definition payload_bits :: "jsstring \<Rightarrow> jsstring" where
  "payload_bits text = concat (map char_bits text)"

definition textToBinary :: "jsstring \<Rightarrow> jsstring" where
  "textToBinary text = payload_bits text @ endMarker"

text \<open>
  \<^verbatim>\<open>
  const binaryToText = (binary: string): string => {
    const endMarker = '1111111111111110';
    const endIndex = binary.indexOf(endMarker);
    if (endIndex === -1) return '';
    const textBinary = binary.substring(0, endIndex);
    const chars = [];
    for (let i = 0; i < textBinary.length; i += 8) {
      const byte = textBinary.substr(i, 8);
      if (byte.length === 8) {
        chars.push(String.fromCharCode(parseInt(byte, 2)));
      }
    }
    return chars.join('');
  };
  \<close>
  \<open>indexOf\<close> gives \<open>None\<close> for \<open>-1\<close>. \<open>parseInt2\<close> is \<open>parseInt(byte, 2)\<close>
  on the strings the codec passes: the leading binary digits are the number, and a
  string without any gives \<open>NaN\<close>, which \<open>String.fromCharCode\<close> turns into
  code unit 0.
\<close>

fun indexOf :: "jsstring \<Rightarrow> jsstring \<Rightarrow> nat option" where
  "indexOf [] needle = (if needle = [] then Some 0 else None)"
| "indexOf (c # cs) needle =
     (if prefix needle (c # cs) then Some 0 else map_option Suc (indexOf cs needle))"

definition parseInt2 :: "jsstring \<Rightarrow> nat" where
  "parseInt2 s = radix_value 2 (takeWhile (\<lambda>c. c = 0x30 \<or> c = 0x31) s)"

function decode_loop :: "jsstring \<Rightarrow> nat \<Rightarrow> jsstring" where
  "decode_loop textBinary i =
     (if i < length textBinary then
        (let byte = take 8 (drop i textBinary) in
         (if length byte = 8 then [of_nat (parseInt2 byte)] else []) @
         decode_loop textBinary (i + 8))
      else [])"
  by pat_completeness auto
termination
  by (relation "measure (\<lambda>(b, i). length b - i)") auto

declare decode_loop.simps [simp del]

definition binaryToText :: "jsstring \<Rightarrow> jsstring" where
  "binaryToText binary =
     (case indexOf binary endMarker of
        None \<Rightarrow> []
      | Some endIndex \<Rightarrow> decode_loop (take endIndex binary) 0)"

text \<open>
  \<^verbatim>\<open>
  const hideTextInImage = (canvas: HTMLCanvasElement, text: string): void => {
    const ctx = canvas.getContext('2d')!;
    const imageData = ctx.getImageData(0, 0, canvas.width, canvas.height);
    const data = imageData.data;
    const binary = textToBinary(text);
    let binaryIndex = 0;
    for (let i = 0; i < data.length && binaryIndex < binary.length; i += 4) {
      // Use only red channel for simplicity
      if (binaryIndex < binary.length) {
        const bit = parseInt(binary[binaryIndex]);
        data[i] = (data[i] & 0xFE) | bit; // Clear LSB and set new bit
        binaryIndex++;
      }
    }
    ctx.putImageData(imageData, 0, 0);
  };
  \<close>
  The canvas is its pixel buffer \<open>data\<close>, read before and written back after the
  loop; the function returns the buffer it writes back. \<open>parseInt_char\<close> is
  \<open>parseInt\<close> of a one-character string as the operand of \<open>|\<close> (a decimal digit
  is its value, anything else is \<open>NaN\<close> and counts as 0). \<open>hide_step\<close> is the body
  of the loop, \<open>hide_loop\<close> the loop with its two counters.
\<close>

definition parseInt_char :: "u16 \<Rightarrow> u8" where
  "parseInt_char c = (if 0x30 \<le> c \<and> c \<le> 0x39 then ucast (c - 0x30) else 0)"

definition hide_step :: "bytes \<Rightarrow> jsstring \<Rightarrow> nat \<Rightarrow> nat \<Rightarrow> bytes \<times> nat" where
  "hide_step data binary i binaryIndex =
     (if binaryIndex < length binary then
        (data[i := (data ! i AND 0xFE) OR parseInt_char (binary ! binaryIndex)],
         binaryIndex + 1)
      else (data, binaryIndex))"

lemma length_hide_step [simp]: "length (fst (hide_step data binary i binaryIndex)) = length data"
  by (simp add: hide_step_def)

function hide_loop :: "bytes \<Rightarrow> jsstring \<Rightarrow> nat \<Rightarrow> nat \<Rightarrow> bytes" where
  "hide_loop data binary i binaryIndex =
     (if i < length data \<and> binaryIndex < length binary then
        hide_loop (fst (hide_step data binary i binaryIndex)) binary (i + 4)
          (snd (hide_step data binary i binaryIndex))
      else data)"
  by pat_completeness auto
termination
  by (relation "measure (\<lambda>(data, binary, i, binaryIndex). length data - i)") auto

declare hide_loop.simps [simp del]

definition hideTextInImage :: "bytes \<Rightarrow> jsstring \<Rightarrow> bytes" where
  "hideTextInImage data text = hide_loop data (textToBinary text) 0 0"

text \<open>
  \<^verbatim>\<open>
  const revealTextFromImage = (canvas: HTMLCanvasElement): string => {
    ...
    let binary = '';
    for (let i = 0; i < data.length; i += 4) {
      binary += (data[i] & 1).toString(); // Extract LSB from red channel
    }
    return binaryToText(binary);
  };
  \<close>
\<close>

function reveal_loop :: "bytes \<Rightarrow> nat \<Rightarrow> jsstring" where
  "reveal_loop data i =
     (if i < length data then
        toString_radix 10 (unat (data ! i AND 1)) @ reveal_loop data (i + 4)
      else [])"
  by pat_completeness auto
termination
  by (relation "measure (\<lambda>(data, i). length data - i)") auto

declare reveal_loop.simps [simp del]

definition revealTextFromImage :: "bytes \<Rightarrow> jsstring" where
  "revealTextFromImage data = binaryToText (reveal_loop data 0)"


lemma endMarker_eq: "endMarker = replicate 15 0x31 @ [0x30]"
  by (simp add: endMarker_def js_def replicate_numeral)

lemma nth_concat_uniform:
  "\<forall>g \<in> set gs. length g = n \<Longrightarrow> k < length gs \<Longrightarrow> m < n \<Longrightarrow>
   concat gs ! (k * n + m) = gs ! k ! m"
proof (induction gs arbitrary: k)
  case Nil
  then show ?case by simp
next
  case (Cons g gs)
  show ?case
  proof (cases k)
    case 0
    with Cons.prems show ?thesis by (simp add: nth_append)
  next
    case (Suc k')
    with Cons.prems Cons.IH [of k'] show ?thesis
      by (simp add: nth_append add.assoc)
  qed
qed

lemma length_concat_uniform:
  "\<forall>g \<in> set gs. length g = n \<Longrightarrow> length (concat gs) = length gs * n"
  by (induction gs) simp_all

lemma no_marker_in_groups:
  assumes len: "\<forall>g \<in> set gs. length g = 8"
    and zero: "\<forall>g \<in> set gs. 0x30 \<in> set g"
  shows "\<not> sublist endMarker (concat gs)"
proof
  assume "sublist endMarker (concat gs)"
  then obtain ps ss where eq: "concat gs = ps @ endMarker @ ss"
    by (auto simp: sublist_def)
  define i where "i = length ps"
  define k where "k = (i + 7) div 8"
  have ones: "concat gs ! (i + j) = 0x31" if "j < 15" for j
    using that by (simp add: eq i_def endMarker_eq nth_append)
  have "length (concat gs) = length gs * 8"
    using len by (rule length_concat_uniform)
  moreover have "i + 16 \<le> length (concat gs)"
    by (simp add: eq i_def endMarker_eq)
  ultimately have k: "k < length gs"
    unfolding k_def by linarith
  then have "0x30 \<in> set (gs ! k)" "length (gs ! k) = 8"
    using zero len by simp_all
  then obtain m where m: "m < 8" "gs ! k ! m = 0x30"
    by (metis in_set_conv_nth)
  have "concat gs ! (k * 8 + m) = gs ! k ! m"
    using len k m(1) by (rule nth_concat_uniform)
  moreover have "i \<le> k * 8" "k * 8 + m < i + 15"
    using m(1) unfolding k_def by linarith+
  then have "k * 8 + m - i < 15" "k * 8 + m = i + (k * 8 + m - i)"
    by linarith+
  ultimately show False
    using ones [of "k * 8 + m - i"] m(2) by simp
qed


lemma all_ones_binary:
  "0x30 \<notin> set (toString_radix 2 n) \<Longrightarrow> n + 1 = 2 ^ length (toString_radix 2 n)"
proof (induction n rule: less_induct)
  case (less n)
  show ?case
  proof (cases "n < 2")
    case True
    then have t: "toString_radix 2 n = [digit_char n]"
      by (subst toString_radix.simps) simp
    from True have "n = 0 \<or> n = 1" by linarith
    with less.prems show ?thesis
      by (auto simp: t digit_char_def)
  next
    case False
    then have u: "toString_radix 2 n = toString_radix 2 (n div 2) @ [digit_char (n mod 2)]"
      by (subst toString_radix.simps) simp
    from False have "n div 2 < n" by simp
    moreover from less.prems u have "0x30 \<notin> set (toString_radix 2 (n div 2))" by simp
    ultimately have "n div 2 + 1 = 2 ^ length (toString_radix 2 (n div 2))"
      by (rule less.IH)
    moreover from less.prems u have "n mod 2 = 1"
      by (cases "n mod 2 = 0") (simp_all add: digit_char_def)
    ultimately show ?thesis
      unfolding u by simp presburger
  qed
qed

lemma length_char_bits: "c \<le> 0xFF \<Longrightarrow> length (char_bits c) = 8"
proof -
  assume "c \<le> 0xFF"
  then have "unat c < 2 ^ Suc 7"
    by (simp add: word_le_nat_alt)
  then have "length (toString_radix 2 (unat c)) \<le> Suc 7"
    by (intro length_toString_radix) simp_all
  then show ?thesis
    by (simp add: char_bits_def length_padStart)
qed

lemma zero_in_char_bits: "c < 0xFF \<Longrightarrow> 0x30 \<in> set (char_bits c)"
proof (rule ccontr)
  assume c: "c < 0xFF" and no: "0x30 \<notin> set (char_bits c)"
  let ?s = "toString_radix 2 (unat c)"
  have n: "unat c < 255"
    using c by (simp add: word_less_nat_alt)
  then have "unat c < 2 ^ Suc 7" by simp
  then have l: "length ?s \<le> Suc 7"
    by (intro length_toString_radix) simp_all
  from no have z: "0x30 \<notin> set ?s" and "8 - length ?s = 0"
    by (auto simp: char_bits_def padStart_def)
  with l have "length ?s = 8" by simp
  with all_ones_binary [OF z] n show False by simp
qed


lemma binary_digit_char: "d < 2 \<Longrightarrow> digit_char d = 0x30 \<or> digit_char d = 0x31"
proof -
  assume "d < 2"
  then have "d = 0 \<or> d = 1" by linarith
  then show ?thesis by (auto simp: digit_char_def)
qed

lemma binary_toString_radix: "list_all (\<lambda>c. c = 0x30 \<or> c = 0x31) (toString_radix 2 n)"
proof (induction n rule: less_induct)
  case (less n)
  show ?case
  proof (cases "n < 2")
    case True
    then have "toString_radix 2 n = [digit_char n]"
      by (subst toString_radix.simps) simp
    with True show ?thesis by (simp add: binary_digit_char)
  next
    case False
    then have u: "toString_radix 2 n = toString_radix 2 (n div 2) @ [digit_char (n mod 2)]"
      by (subst toString_radix.simps) simp
    from False have "n div 2 < n" by simp
    from less.IH [OF this] show ?thesis
      unfolding u by (simp add: binary_digit_char)
  qed
qed

lemma binary_textToBinary: "list_all (\<lambda>c. c = 0x30 \<or> c = 0x31) (textToBinary t)"
proof -
  have "list_all (\<lambda>c. c = 0x30 \<or> c = 0x31) (char_bits c)" for c
    using binary_toString_radix [of "unat c"]
    by (auto simp: char_bits_def padStart_def list_all_iff)
  then have "list_all (\<lambda>c. c = 0x30 \<or> c = 0x31) (payload_bits t)"
    unfolding payload_bits_def by (induction t) simp_all
  then show ?thesis
    by (simp add: textToBinary_def endMarker_eq list_all_iff)
qed

lemma length_hide_loop: "length (hide_loop data binary i b) = length data"
proof (induction data binary i b rule: hide_loop.induct)
  case (1 data binary i b)
  then show ?case
    by (subst hide_loop.simps) simp
qed

lemma hide_loop_nth:
  "j < length data \<Longrightarrow>
   hide_loop data binary i b ! j =
     (if i \<le> j \<and> (j - i) mod 4 = 0 \<and> b + (j - i) div 4 < length binary
      then (data ! j AND 0xFE) OR parseInt_char (binary ! (b + (j - i) div 4))
      else data ! j)"
proof (induction data binary i b rule: hide_loop.induct)
  case (1 data binary i b)
  show ?case
  proof (cases "i < length data \<and> b < length binary")
    case False
    then have "hide_loop data binary i b = data"
      by (subst hide_loop.simps) auto
    moreover from False "1.prems" have "\<not> (i \<le> j \<and> b + (j - i) div 4 < length binary)"
      by auto
    ultimately show ?thesis by auto
  next
    case True
    let ?v = "(data ! i AND 0xFE) OR parseInt_char (binary ! b)"
    from True have st: "hide_step data binary i b = (data[i := ?v], b + 1)"
      by (simp add: hide_step_def)
    from True have u: "hide_loop data binary i b = hide_loop (data[i := ?v]) binary (i + 4) (b + 1)"
      by (subst hide_loop.simps) (simp add: st)
    have ih: "hide_loop (data[i := ?v]) binary (i + 4) (b + 1) ! j =
        (if i + 4 \<le> j \<and> (j - (i + 4)) mod 4 = 0 \<and> b + 1 + (j - (i + 4)) div 4 < length binary
         then (data[i := ?v] ! j AND 0xFE) OR parseInt_char (binary ! (b + 1 + (j - (i + 4)) div 4))
         else data[i := ?v] ! j)"
      using "1.IH" [OF True] "1.prems" by (simp add: st)
    show ?thesis
    proof (cases "j = i")
      case True
      with \<open>i < length data \<and> b < length binary\<close> show ?thesis
        unfolding u ih by simp
    next
      case False
      have a: "(i + 4 \<le> j \<and> (j - (i + 4)) mod 4 = 0) = (i \<le> j \<and> (j - i) mod 4 = 0)"
        using False by presburger
      have b: "i + 4 \<le> j \<Longrightarrow> b + 1 + (j - (i + 4)) div 4 = b + (j - i) div 4"
        by presburger
      from False show ?thesis
        unfolding u ih using a b by auto
    qed
  qed
qed


text \<open>
  The samples the embedding can use are the bytes at the indices 0, 4, 8, ... of the
  buffer.
\<close>

definition usable_samples :: "bytes \<Rightarrow> nat" where
  "usable_samples data = length (filter (\<lambda>i. i mod 4 = 0) [0..<length data])"

lemma usable_samples_eq: "usable_samples data = (length data + 3) div 4"
proof -
  have "length (filter (\<lambda>i. i mod 4 = 0) [0..<n]) = (n + 3) div 4" for n
    by (induction n) (auto, presburger+)
  then show ?thesis by (simp add: usable_samples_def)
qed

text \<open>
  Claim C5, as the code has it. When the buffer has fewer usable samples than the
  payload has bits, the embedding raises nothing and keeps the length of the buffer,
  but it does write: every usable sample gets its least significant bit replaced by
  the payload bit of its position (the payload consists of the characters 0 and 1),
  and the payload bits beyond the last sample are dropped. Every other byte is
  unchanged.
\<close>

theorem hideTextInImage_truncates:
  assumes "usable_samples data < length (textToBinary t)"
  shows "length (hideTextInImage data t) = length data \<and>
         list_all (\<lambda>c. c = 0x30 \<or> c = 0x31) (textToBinary t) \<and>
         (\<forall>j < length data.
            hideTextInImage data t ! j =
              (if j mod 4 = 0
               then (data ! j AND 0xFE) OR parseInt_char (textToBinary t ! (j div 4))
               else data ! j))"
proof -
  have "hideTextInImage data t ! j =
      (if j mod 4 = 0
       then (data ! j AND 0xFE) OR parseInt_char (textToBinary t ! (j div 4))
       else data ! j)" if j: "j < length data" for j
  proof -
    from j assms have "j div 4 < length (textToBinary t)"
      unfolding usable_samples_eq by linarith
    with hide_loop_nth [OF j, of "textToBinary t" 0 0] show ?thesis
      by (simp add: hideTextInImage_def)
  qed
  then show ?thesis
    by (simp add: hideTextInImage_def length_hide_loop binary_textToBinary)
qed

lemma textToBinary_A: "textToBinary (js ''A'') = js ''010000011111111111111110''"
  by (simp add: textToBinary_def payload_bits_def char_bits_def endMarker_def js_def
      padStart_def toString_radix.simps digit_char_def)

lemma hide_A: "hideTextInImage [1, 0, 0, 0] (js ''A'') = [0, 0, 0, 0]"
  by (simp add: hideTextInImage_def textToBinary_A)
    (simp add: js_def hide_loop.simps hide_step_def parseInt_char_def)

theorem hideTextInImage_truncates_witness:
  "usable_samples [1, 0, 0, 0] < length (textToBinary (js ''A'')) \<and>
   length (hideTextInImage [1, 0, 0, 0] (js ''A'')) = 4 \<and>
   hideTextInImage [1, 0, 0, 0] (js ''A'') ! 0 =
     ((1 :: u8) AND 0xFE) OR parseInt_char (textToBinary (js ''A'') ! 0) \<and>
   hideTextInImage [1, 0, 0, 0] (js ''A'') ! 1 = 0"
proof -
  have h: "usable_samples [1, 0, 0, 0] < length (textToBinary (js ''A''))"
    by (simp add: usable_samples_eq textToBinary_A) (simp add: js_def)
  from hideTextInImage_truncates [OF h] have
    "\<forall>j < 4. hideTextInImage [1, 0, 0, 0] (js ''A'') ! j =
       (if j mod 4 = 0
        then ([1, 0, 0, 0] ! j AND 0xFE) OR parseInt_char (textToBinary (js ''A'') ! (j div 4))
        else [1, 0, 0, 0 :: u8] ! j)"
    and l: "length (hideTextInImage [1, 0, 0, 0] (js ''A'')) = 4"
    by simp_all
  then have "hideTextInImage [1, 0, 0, 0] (js ''A'') ! 0 =
       ((1 :: u8) AND 0xFE) OR parseInt_char (textToBinary (js ''A'') ! 0)"
    and "hideTextInImage [1, 0, 0, 0] (js ''A'') ! 1 = 0"
    by (simp_all del: bit.conj_cancel_left)
  with h l show ?thesis by simp
qed

text \<open>
  Claim C5 as stated fails: a one-pixel buffer whose red byte is 1 holds one usable
  sample, the payload of the text \<open>A\<close> has 24 bits, and the embedding changes the
  red byte to 0.
\<close>

theorem hideTextInImage_modifies_counterexample:
  "usable_samples [1, 0, 0, 0] < length (textToBinary (js ''A'')) \<and>
   hideTextInImage [1, 0, 0, 0] (js ''A'') \<noteq> [1, 0, 0, 0]"
proof -
  have "usable_samples [1, 0, 0, 0] < length (textToBinary (js ''A''))"
    by (simp add: usable_samples_eq textToBinary_A) (simp add: js_def)
  then show ?thesis by (simp add: hide_A)
qed

lemma no_marker_in_payload:
  assumes "list_all (\<lambda>c. c < 0xFF) t"
  shows "\<not> sublist endMarker (payload_bits t)"
  unfolding payload_bits_def
proof (rule no_marker_in_groups)
  show "\<forall>g\<in>set (map char_bits t). length g = 8"
    using assms by (auto simp: list_all_iff intro!: length_char_bits less_imp_le)
  show "\<forall>g\<in>set (map char_bits t). 0x30 \<in> set g"
    using assms by (auto simp: list_all_iff intro: zero_in_char_bits)
qed

text \<open>
  Claim C6, as the code has it. The bitstream is the payload followed by the end
  marker, and the end marker does not occur inside the payload of a text whose code
  units are all below 255 (every text of 7-bit characters, and every base64 text, is
  one): each group then has exactly eight bits, one of them 0, so no fifteen
  consecutive bits are all 1, within a group or across groups.
\<close>

theorem endMarker_not_in_payload:
  "textToBinary t = payload_bits t @ endMarker \<and>
   (list_all (\<lambda>c. c < 0xFF) t \<longrightarrow> \<not> sublist endMarker (payload_bits t))"
  using no_marker_in_payload [of t] by (simp add: textToBinary_def)

theorem endMarker_not_in_payload_witness:
  "list_all (\<lambda>c. c < 0xFF) (js ''Hi'') \<and> \<not> sublist endMarker (payload_bits (js ''Hi''))"
  using endMarker_not_in_payload [of "js ''Hi''"] by (simp add: js_def)

text \<open>
  Claim C6 as stated fails: the two code units 255 and 254 have the groups
  \<open>11111111\<close> and \<open>11111110\<close>, which together are the end marker. Decoding the
  bitstream of this text finds the marker at index 0 and returns the empty text.
\<close>

theorem endMarker_in_payload_counterexample:
  "sublist endMarker (payload_bits [0xFF, 0xFE]) \<and>
   binaryToText (textToBinary [0xFF, 0xFE]) = []"
proof -
  have p: "payload_bits [0xFF, 0xFE] = endMarker"
    by (simp add: payload_bits_def char_bits_def endMarker_def js_def
        padStart_def toString_radix.simps digit_char_def)
  have "indexOf (endMarker @ endMarker) endMarker = Some 0"
    by (simp add: endMarker_eq replicate_numeral)
  then have "binaryToText (textToBinary [0xFF, 0xFE]) = []"
    by (simp add: binaryToText_def textToBinary_def p decode_loop.simps)
  with p show ?thesis by simp
qed


section \<open>The platform: errors, base64, text encoding and Web Crypto\<close>

text \<open>
  The cryptography module is written against the browser platform. The functions of
  the platform it calls are modelled here from their standards; the cryptographic
  primitives themselves and the engine's bound on the arguments of a call are
  parameters (the record \<open>platform\<close> below).

  An \<open>async\<close> function returns a rejected promise or a value: a result is
  \<open>js_error + 'a\<close>, and \<open>await p k\<close> continues with \<open>k\<close> when \<open>p\<close> is fulfilled.
  The errors are the exceptions the platform raises here (\<open>DOMException\<close> names
  and the \<open>RangeError\<close> of the engine) and the \<open>Error\<close> the module throws
  itself.
\<close>

datatype js_error =
  InvalidCharacterError | OperationError | DataError | RangeError | Error jsstring

definition await :: "js_error + 'a \<Rightarrow> ('a \<Rightarrow> js_error + 'b) \<Rightarrow> js_error + 'b" where
  "await p k = (case p of Inl e \<Rightarrow> Inl e | Inr v \<Rightarrow> k v)"

text \<open>
  \<open>String.fromCharCode\<close> makes the binary string of its arguments, one code unit
  for each byte, and \<open>new Uint8Array(s.split('').map(c => c.charCodeAt(0)))\<close> reads
  the bytes back (an element of a \<open>Uint8Array\<close> keeps the low eight bits).
\<close>

definition fromCharCode :: "bytes \<Rightarrow> jsstring" where
  "fromCharCode codes = map ucast codes"

definition charCodes :: "jsstring \<Rightarrow> bytes" where
  "charCodes s = map ucast s"

text \<open>
  \<open>btoa\<close> and \<open>atob\<close>, after the HTML standard: \<open>btoa\<close> throws on a code unit
  above 255 and otherwise encodes as RFC 4648 does; \<open>atob\<close> is the forgiving base64
  decoding (ASCII whitespace is removed, padding is optional, a length of 1 modulo 4
  or a character outside the alphabet throws). \<open>sextets\<close> regroups bytes into 6-bit
  values, \<open>b64_decode\<close> regroups them back, dropping the surplus bits of a last
  group of two or three.
\<close>

definition b64_code :: "nat \<Rightarrow> nat" where
  "b64_code n =
     (if n < 26 then 65 + n
      else if n < 52 then 71 + n
      else if n < 62 then n - 4
      else if n = 62 then 43
      else 47)"

definition b64_char :: "nat \<Rightarrow> u16" where
  "b64_char n = of_nat (b64_code n)"

definition b64_index :: "u16 \<Rightarrow> nat option" where
  "b64_index c =
     (let n = unat c in
      if 65 \<le> n \<and> n \<le> 90 then Some (n - 65)
      else if 97 \<le> n \<and> n \<le> 122 then Some (n - 71)
      else if 48 \<le> n \<and> n \<le> 57 then Some (n + 4)
      else if n = 43 then Some 62
      else if n = 47 then Some 63
      else None)"

fun sextets :: "nat list \<Rightarrow> nat list" where
  "sextets (x # y # z # rest) =
     [x div 4, (x mod 4) * 16 + y div 16, (y mod 16) * 4 + z div 64, z mod 64] @ sextets rest"
| "sextets [x, y] = [x div 4, (x mod 4) * 16 + y div 16, (y mod 16) * 4]"
| "sextets [x] = [x div 4, (x mod 4) * 16]"
| "sextets [] = []"

definition b64_encode :: "nat list \<Rightarrow> jsstring" where
  "b64_encode octets =
     map b64_char (sextets octets) @
     replicate (if length octets mod 3 = 0 then 0 else 3 - length octets mod 3) 0x3D"

definition btoa :: "jsstring \<Rightarrow> js_error + jsstring" where
  "btoa s =
     (if list_ex (\<lambda>c. 0xFF < c) s then Inl InvalidCharacterError
      else Inr (b64_encode (map unat s)))"

definition is_ascii_whitespace :: "u16 \<Rightarrow> bool" where
  "is_ascii_whitespace c = (c = 0x09 \<or> c = 0x0A \<or> c = 0x0C \<or> c = 0x0D \<or> c = 0x20)"

definition strip_padding :: "jsstring \<Rightarrow> jsstring" where
  "strip_padding data =
     (if length data mod 4 = 0 then
        (if 2 \<le> length data \<and> last data = 0x3D \<and> last (butlast data) = 0x3D
         then butlast (butlast data)
         else if data \<noteq> [] \<and> last data = 0x3D then butlast data
         else data)
      else data)"

fun b64_decode :: "nat list \<Rightarrow> nat list" where
  "b64_decode (a # b # c # d # rest) =
     [a * 4 + b div 16, (b mod 16) * 16 + c div 4, (c mod 4) * 64 + d] @ b64_decode rest"
| "b64_decode [a, b, c] = [a * 4 + b div 16, (b mod 16) * 16 + c div 4]"
| "b64_decode [a, b] = [a * 4 + b div 16]"
| "b64_decode [a] = []"
| "b64_decode [] = []"

definition atob :: "jsstring \<Rightarrow> js_error + jsstring" where
  "atob s =
     (let data = strip_padding (filter (\<lambda>c. \<not> is_ascii_whitespace c) s) in
      if length data mod 4 = 1 then Inl InvalidCharacterError
      else if list_ex (\<lambda>c. b64_index c = None) data then Inl InvalidCharacterError
      else Inr (map of_nat (b64_decode (map (\<lambda>c. the (b64_index c)) data))))"


lemma unat_b64_char: "n < 64 \<Longrightarrow> unat (b64_char n) = b64_code n"
proof -
  assume "n < 64"
  then have "b64_code n < 65536" by (auto simp: b64_code_def)
  then show ?thesis by (simp add: b64_char_def unat_of_nat)
qed

lemma b64_index_b64_char: "n < 64 \<Longrightarrow> b64_index (b64_char n) = Some n"
  by (simp add: b64_index_def unat_b64_char Let_def) (auto simp: b64_code_def)

lemma b64_char_not_pad: "n < 64 \<Longrightarrow> b64_char n \<noteq> 0x3D"
proof
  assume "n < 64" "b64_char n = 0x3D"
  then have "b64_code n = 61"
    using unat_b64_char [of n] by simp
  then show False by (simp add: b64_code_def split: if_splits)
qed

lemma b64_char_not_space: "n < 64 \<Longrightarrow> \<not> is_ascii_whitespace (b64_char n)"
proof
  assume "n < 64" "is_ascii_whitespace (b64_char n)"
  then have "b64_code n \<in> {9, 10, 12, 13, 32}"
    using unat_b64_char [of n] by (auto simp: is_ascii_whitespace_def)
  then show False by (auto simp: b64_code_def split: if_splits)
qed


lemma div_shifted: "t < m \<Longrightarrow> (k * m + t) div m = (k :: nat)"
  by simp

lemma mod_shifted: "t < m \<Longrightarrow> (k * m + t) mod m = (t :: nat)"
  by simp

lemma regroup:
  fixes x y z :: nat
  assumes "x < 256" "y < 256" "z < 256"
  shows "x div 4 * 4 + (x mod 4 * 16 + y div 16) div 16 = x"
    and "(x mod 4 * 16 + y div 16) mod 16 * 16 + (y mod 16 * 4 + z div 64) div 4 = y"
    and "(y mod 16 * 4 + z div 64) mod 4 * 64 + z mod 64 = z"
    and "(x mod 4 * 16 + y div 16) mod 16 * 16 + (y mod 16 * 4) div 4 = y"
    and "x div 4 * 4 + (x mod 4 * 16) div 16 = x"
proof -
  have y: "y div 16 < 16" and z: "z div 64 < 4"
    using assms by simp_all
  show "x div 4 * 4 + (x mod 4 * 16 + y div 16) div 16 = x"
    by (simp only: div_shifted [OF y]) simp
  show "(x mod 4 * 16 + y div 16) mod 16 * 16 + (y mod 16 * 4 + z div 64) div 4 = y"
    by (simp only: mod_shifted [OF y] div_shifted [OF z]) simp
  show "(y mod 16 * 4 + z div 64) mod 4 * 64 + z mod 64 = z"
    by (simp only: mod_shifted [OF z]) simp
  show "(x mod 4 * 16 + y div 16) mod 16 * 16 + (y mod 16 * 4) div 4 = y"
    by (simp only: mod_shifted [OF y]) simp
  show "x div 4 * 4 + (x mod 4 * 16) div 16 = x"
    by simp
qed

lemma regroup_bound:
  fixes x y z :: nat
  assumes "x < 256" "y < 256" "z < 256"
  shows "x div 4 < 64" "x mod 4 * 16 + y div 16 < 64" "y mod 16 * 4 + z div 64 < 64"
    "z mod 64 < 64" "y mod 16 * 4 < 64" "x mod 4 * 16 < 64"
proof -
  have "x mod 4 < 4" "y mod 16 < 16" "y div 16 < 16" "z div 64 < 4"
    using assms by simp_all
  then show "x div 4 < 64" "x mod 4 * 16 + y div 16 < 64" "y mod 16 * 4 + z div 64 < 64"
    "z mod 64 < 64" "y mod 16 * 4 < 64" "x mod 4 * 16 < 64"
    using assms by linarith+
qed

lemma sextets_bound: "list_all (\<lambda>x. x < 256) bs \<Longrightarrow> list_all (\<lambda>s. s < 64) (sextets bs)"
proof (induction bs rule: sextets.induct)
  case (1 x y z rest)
  then have b: "x < 256" "y < 256" "z < 256" and r: "list_all (\<lambda>s. s < 64) (sextets rest)"
    by simp_all
  show ?case
    by (simp only: sextets.simps list_all_append list.pred_inject regroup_bound [OF b] r simp_thms)
next
  case (2 x y)
  then have b: "x < 256" "y < 256" "(0::nat) < 256" by simp_all
  show ?case
    by (simp only: sextets.simps list.pred_inject regroup_bound [OF b] simp_thms)
next
  case (3 x)
  then have b: "x < 256" "(0::nat) < 256" "(0::nat) < 256" by simp_all
  show ?case
    by (simp only: sextets.simps list.pred_inject regroup_bound [OF b] simp_thms)
qed simp

lemma b64_decode_sextets: "list_all (\<lambda>x. x < 256) bs \<Longrightarrow> b64_decode (sextets bs) = bs"
proof (induction bs rule: sextets.induct)
  case (1 x y z rest)
  then have b: "x < 256" "y < 256" "z < 256" and r: "b64_decode (sextets rest) = rest"
    by simp_all
  show ?case
    by (simp only: sextets.simps b64_decode.simps append.simps regroup [OF b] r)
next
  case (2 x y)
  then have b: "x < 256" "y < 256" "(0::nat) < 256" by simp_all
  show ?case
    by (simp only: sextets.simps b64_decode.simps regroup [OF b])
next
  case (3 x)
  then have b: "x < 256" "(0::nat) < 256" "(0::nat) < 256" by simp_all
  show ?case
    by (simp only: sextets.simps b64_decode.simps regroup [OF b])
qed simp

lemma length_sextets:
  "length (sextets bs) = 4 * (length bs div 3) + (if length bs mod 3 = 0 then 0 else length bs mod 3 + 1)"
  by (induction bs rule: sextets.induct) simp_all


lemma strip_padding_pad:
  assumes ne: "list_all (\<lambda>c. c \<noteq> 0x3D) xs"
    and p: "p \<le> 2"
    and len: "(length xs + p) mod 4 = 0"
  shows "strip_padding (xs @ replicate p 0x3D) = xs"
proof -
  have last_ne: "xs \<noteq> [] \<Longrightarrow> last xs \<noteq> 0x3D"
    using ne by (cases xs rule: rev_cases) simp_all
  consider "p = 0" | "p = 1" | "p = 2"
    using p by linarith
  then show ?thesis
  proof cases
    case 1
    with len last_ne show ?thesis
      by (cases xs rule: rev_cases) (auto simp: strip_padding_def)
  next
    case 2
    with len have "xs \<noteq> []" by auto
    with 2 len last_ne show ?thesis
      by (simp add: strip_padding_def butlast_append)
  next
    case 3
    then have r: "replicate p (0x3D :: u16) = [0x3D, 0x3D]"
      by (simp add: numeral_2_eq_2)
    from 3 len show ?thesis
      unfolding r by (simp add: strip_padding_def butlast_append)
  qed
qed

lemma atob_b64_encode:
  assumes "list_all (\<lambda>x. x < 256) bs"
  shows "atob (b64_encode bs) = Inr (map of_nat bs)"
proof -
  let ?xs = "map b64_char (sextets bs)"
  let ?p = "if length bs mod 3 = 0 then 0 else 3 - length bs mod 3"
  have sx: "list_all (\<lambda>s. s < 64) (sextets bs)"
    using assms by (rule sextets_bound)
  have "\<not> is_ascii_whitespace 0x3D"
    by (simp add: is_ascii_whitespace_def)
  with sx have "\<forall>c \<in> set (b64_encode bs). \<not> is_ascii_whitespace c"
    by (auto simp: b64_encode_def list_all_iff b64_char_not_space)
  then have nospace: "filter (\<lambda>c. \<not> is_ascii_whitespace c) (b64_encode bs) = b64_encode bs"
    by (rule filter_True)
  have ne: "list_all (\<lambda>c. c \<noteq> 0x3D) ?xs"
    using sx by (auto simp: list_all_iff b64_char_not_pad)
  have len: "(length ?xs + ?p) mod 4 = 0"
    by (simp add: length_sextets)
  have "?p \<le> 2" by simp presburger
  with ne have strip: "strip_padding (b64_encode bs) = ?xs"
    unfolding b64_encode_def using len by (rule strip_padding_pad)
  have l1: "length ?xs mod 4 \<noteq> 1"
    by (simp add: length_sextets)
  have valid: "\<not> list_ex (\<lambda>c. b64_index c = None) ?xs"
    using sx by (auto simp: list_ex_iff list_all_iff b64_index_b64_char)
  have idx: "map (\<lambda>c. the (b64_index c)) ?xs = sextets bs"
    using sx by (simp add: list_all_iff b64_index_b64_char map_idI)
  show ?thesis
    unfolding atob_def nospace strip Let_def
    using l1 valid by (simp only: idx b64_decode_sextets [OF assms] if_False)
qed

lemma list_all_unat_byte: "list_all (\<lambda>x. x < 256) (map unat (bs :: u8 list))"
proof -
  have "unat b < 256" for b :: u8
    using unsigned_less [of b] by simp
  then show ?thesis by (simp add: list_all_iff)
qed

lemma unat_ucast_byte: "unat (ucast (b :: u8) :: u16) = unat b"
proof -
  have "unat b < 2 ^ 16"
    using unsigned_less [of b, where ?'a = nat] by simp
  then show ?thesis
    by (simp add: unsigned_ucast_eq take_bit_nat_eq_self)
qed

lemma btoa_fromCharCode: "btoa (fromCharCode bs) = Inr (b64_encode (map unat bs))"
proof -
  have "\<not> 0xFF < (ucast b :: u16)" for b :: u8
    using unsigned_less [of b, where ?'a = nat] by (simp add: word_less_nat_alt unat_ucast_byte)
  then have "\<not> list_ex (\<lambda>c. 0xFF < c) (fromCharCode bs)"
    by (simp add: fromCharCode_def list_ex_iff)
  moreover have "map unat (fromCharCode bs) = map unat bs"
    by (simp add: fromCharCode_def unat_ucast_byte)
  ultimately show ?thesis by (simp add: btoa_def)
qed

lemma charCodes_of_nat_unat: "charCodes (map of_nat (map unat bs)) = bs"
  by (simp add: charCodes_def comp_def ucast_up_ucast_id is_up map_idI)

lemma atob_btoa_bytes:
  "btoa (fromCharCode bs) = Inr s \<Longrightarrow> await (atob s) (\<lambda>t. Inr (charCodes t)) = Inr bs"
  using charCodes_of_nat_unat [of bs]
  by (auto simp: btoa_fromCharCode await_def atob_b64_encode list_all_unat_byte)

text \<open>
  \<open>new TextEncoder().encode(s)\<close>: the string is converted to scalar values (a
  surrogate pair is one scalar value, a lone surrogate becomes U+FFFD) and these are
  written in UTF-8.
\<close>

definition is_lead_surrogate :: "u16 \<Rightarrow> bool" where
  "is_lead_surrogate c = (0xD800 \<le> c \<and> c \<le> 0xDBFF)"

definition is_trail_surrogate :: "u16 \<Rightarrow> bool" where
  "is_trail_surrogate c = (0xDC00 \<le> c \<and> c \<le> 0xDFFF)"

fun scalar_values :: "jsstring \<Rightarrow> nat list" where
  "scalar_values [] = []"
| "scalar_values [c] =
     [if is_lead_surrogate c \<or> is_trail_surrogate c then 0xFFFD else unat c]"
| "scalar_values (c # d # rest) =
     (if is_lead_surrogate c \<and> is_trail_surrogate d
      then (0x10000 + (unat c - 0xD800) * 0x400 + (unat d - 0xDC00)) # scalar_values rest
      else (if is_lead_surrogate c \<or> is_trail_surrogate c then 0xFFFD else unat c) #
           scalar_values (d # rest))"

definition utf8_encode_scalar :: "nat \<Rightarrow> bytes" where
  "utf8_encode_scalar cp =
     (if cp < 0x80 then [of_nat cp]
      else if cp < 0x800 then [of_nat (0xC0 + cp div 64), of_nat (0x80 + cp mod 64)]
      else if cp < 0x10000 then
        [of_nat (0xE0 + cp div 4096), of_nat (0x80 + cp div 64 mod 64),
         of_nat (0x80 + cp mod 64)]
      else
        [of_nat (0xF0 + cp div 262144), of_nat (0x80 + cp div 4096 mod 64),
         of_nat (0x80 + cp div 64 mod 64), of_nat (0x80 + cp mod 64)])"

definition TextEncoder_encode :: "jsstring \<Rightarrow> bytes" where
  "TextEncoder_encode s = concat (map utf8_encode_scalar (scalar_values s))"

text \<open>
  \<open>new TextDecoder().decode(bytes)\<close>: the UTF-8 decoder of the Encoding standard
  with its five state variables, in replacement mode (an error emits U+FFFD, and a
  byte that cannot continue a sequence is processed again as a first byte). The
  decoder is created with the default \<open>ignoreBOM = false\<close>, so a byte order mark
  U+FEFF at the start of the decoded text is removed. The scalar values are then
  written as UTF-16 code units.
\<close>

record utf8_decoder =
  code_point :: nat
  bytes_seen :: nat
  bytes_needed :: nat
  lower_boundary :: nat
  upper_boundary :: nat

definition utf8_initial :: utf8_decoder where
  "utf8_initial =
     \<lparr>code_point = 0, bytes_seen = 0, bytes_needed = 0,
      lower_boundary = 0x80, upper_boundary = 0xBF\<rparr>"

function utf8_decode :: "utf8_decoder \<Rightarrow> nat list \<Rightarrow> nat list" where
  "utf8_decode st [] = (if bytes_needed st \<noteq> 0 then [0xFFFD] else [])"
| "utf8_decode st (byte # rest) =
     (if bytes_needed st = 0 then
        (if byte \<le> 0x7F then byte # utf8_decode st rest
         else if 0xC2 \<le> byte \<and> byte \<le> 0xDF then
           utf8_decode (st\<lparr>bytes_needed := 1, code_point := byte mod 32\<rparr>) rest
         else if 0xE0 \<le> byte \<and> byte \<le> 0xEF then
           utf8_decode
             (st\<lparr>lower_boundary := (if byte = 0xE0 then 0xA0 else lower_boundary st),
                 upper_boundary := (if byte = 0xED then 0x9F else upper_boundary st),
                 bytes_needed := 2, code_point := byte mod 16\<rparr>) rest
         else if 0xF0 \<le> byte \<and> byte \<le> 0xF4 then
           utf8_decode
             (st\<lparr>lower_boundary := (if byte = 0xF0 then 0x90 else lower_boundary st),
                 upper_boundary := (if byte = 0xF4 then 0x8F else upper_boundary st),
                 bytes_needed := 3, code_point := byte mod 8\<rparr>) rest
         else 0xFFFD # utf8_decode st rest)
      else if \<not> (lower_boundary st \<le> byte \<and> byte \<le> upper_boundary st) then
        0xFFFD # utf8_decode utf8_initial (byte # rest)
      else if bytes_seen st + 1 \<noteq> bytes_needed st then
        utf8_decode
          (st\<lparr>lower_boundary := 0x80, upper_boundary := 0xBF,
              code_point := code_point st * 64 + byte mod 64,
              bytes_seen := bytes_seen st + 1\<rparr>) rest
      else (code_point st * 64 + byte mod 64) # utf8_decode utf8_initial rest)"
  by pat_completeness auto
termination
  by (relation "measure (\<lambda>(st, input). 2 * length input + (if bytes_needed st = 0 then 0 else 1))")
    (auto simp: utf8_initial_def)

declare utf8_decode.simps [simp del]

definition strip_BOM :: "nat list \<Rightarrow> nat list" where
  "strip_BOM scalars =
     (case scalars of [] \<Rightarrow> [] | cp # rest \<Rightarrow> if cp = 0xFEFF then rest else scalars)"

definition utf16_encode_scalar :: "nat \<Rightarrow> jsstring" where
  "utf16_encode_scalar cp =
     (if cp < 0x10000 then [of_nat cp]
      else [of_nat (0xD800 + (cp - 0x10000) div 0x400),
            of_nat (0xDC00 + (cp - 0x10000) mod 0x400)])"

definition TextDecoder_decode :: "bytes \<Rightarrow> jsstring" where
  "TextDecoder_decode input =
     concat (map utf16_encode_scalar (strip_BOM (utf8_decode utf8_initial (map unat input))))"

text \<open>
  A string is well-formed when it has no lone surrogate: it is the UTF-16 form of a
  sequence of Unicode scalar values, and so of a UTF-8 text.
\<close>

fun well_formed :: "jsstring \<Rightarrow> bool" where
  "well_formed [] = True"
| "well_formed [c] = (\<not> is_lead_surrogate c \<and> \<not> is_trail_surrogate c)"
| "well_formed (c # d # rest) =
     (if is_lead_surrogate c then is_trail_surrogate d \<and> well_formed rest
      else \<not> is_trail_surrogate c \<and> well_formed (d # rest))"

definition is_scalar :: "nat \<Rightarrow> bool" where
  "is_scalar cp = (cp < 0x110000 \<and> \<not> (0xD800 \<le> cp \<and> cp \<le> 0xDFFF))"

lemma unat_byte: "n < 256 \<Longrightarrow> unat (of_nat n :: u8) = n"
  by (simp add: unat_of_nat)

lemma utf8_decode_one:
  "b \<le> 0x7F \<Longrightarrow> utf8_decode utf8_initial (b # rest) = b # utf8_decode utf8_initial rest"
  by (subst utf8_decode.simps) (simp add: utf8_initial_def)

lemma mod_offset: "t < m \<Longrightarrow> (k * m + t) mod m = (t :: nat)"
  by simp

lemma utf8_decode_two:
  assumes "2 \<le> a" "a < 32" "d < 64"
  shows "utf8_decode utf8_initial ((0xC0 + a) # (0x80 + d) # rest) =
         (a * 64 + d) # utf8_decode utf8_initial rest"
proof -
  have m: "(192 + a) mod 32 = a" "(128 + d) mod 64 = d"
    using mod_offset [of a 32 6] mod_offset [of d 64 2] assms by simp_all
  have r: "\<not> 192 + a \<le> 127" "194 \<le> 192 + a" "192 + a \<le> 223"
    "128 \<le> 128 + d" "128 + d \<le> 191"
    using assms by simp_all
  have "utf8_decode utf8_initial ((192 + a) # (128 + d) # rest) =
      utf8_decode (utf8_initial\<lparr>bytes_needed := 1, code_point := a\<rparr>) ((128 + d) # rest)"
    by (subst utf8_decode.simps) (simp add: r m utf8_initial_def)
  also have "\<dots> = (a * 64 + d) # utf8_decode utf8_initial rest"
    by (subst utf8_decode.simps) (simp add: r m utf8_initial_def)
  finally show ?thesis by simp
qed


lemma utf8_decode_lead3:
  "0xE0 \<le> byte \<Longrightarrow> byte \<le> 0xEF \<Longrightarrow>
   utf8_decode utf8_initial (byte # rest) =
   utf8_decode
     \<lparr>code_point = byte mod 16, bytes_seen = 0, bytes_needed = 2,
      lower_boundary = (if byte = 0xE0 then 0xA0 else 0x80),
      upper_boundary = (if byte = 0xED then 0x9F else 0xBF)\<rparr> rest"
  by (subst utf8_decode.simps) (simp add: utf8_initial_def)

lemma utf8_decode_lead4:
  "0xF0 \<le> byte \<Longrightarrow> byte \<le> 0xF4 \<Longrightarrow>
   utf8_decode utf8_initial (byte # rest) =
   utf8_decode
     \<lparr>code_point = byte mod 8, bytes_seen = 0, bytes_needed = 3,
      lower_boundary = (if byte = 0xF0 then 0x90 else 0x80),
      upper_boundary = (if byte = 0xF4 then 0x8F else 0xBF)\<rparr> rest"
  by (subst utf8_decode.simps) (simp add: utf8_initial_def)

lemma utf8_decode_continue:
  "n \<noteq> 0 \<Longrightarrow> lo \<le> byte \<Longrightarrow> byte \<le> hi \<Longrightarrow> seen + 1 \<noteq> n \<Longrightarrow>
   utf8_decode
     \<lparr>code_point = cp, bytes_seen = seen, bytes_needed = n,
      lower_boundary = lo, upper_boundary = hi\<rparr> (byte # rest) =
   utf8_decode
     \<lparr>code_point = cp * 64 + byte mod 64, bytes_seen = seen + 1, bytes_needed = n,
      lower_boundary = 0x80, upper_boundary = 0xBF\<rparr> rest"
  by (subst utf8_decode.simps) simp

lemma utf8_decode_last:
  "n \<noteq> 0 \<Longrightarrow> lo \<le> byte \<Longrightarrow> byte \<le> hi \<Longrightarrow> seen + 1 = n \<Longrightarrow>
   utf8_decode
     \<lparr>code_point = cp, bytes_seen = seen, bytes_needed = n,
      lower_boundary = lo, upper_boundary = hi\<rparr> (byte # rest) =
   (cp * 64 + byte mod 64) # utf8_decode utf8_initial rest"
  by (subst utf8_decode.simps) simp

lemma utf8_decode_three:
  assumes "a < 16" "c < 64" "d < 64" "a = 0 \<longrightarrow> 32 \<le> c" "a = 13 \<longrightarrow> c < 32"
  shows "utf8_decode utf8_initial ((0xE0 + a) # (0x80 + c) # (0x80 + d) # rest) =
         ((a * 64 + c) * 64 + d) # utf8_decode utf8_initial rest"
proof -
  have m: "(224 + a) mod 16 = a" "(128 + c) mod 64 = c" "(128 + d) mod 64 = d"
    using mod_offset [of a 16 14] mod_offset [of c 64 2] mod_offset [of d 64 2] assms
    by simp_all
  have lo: "(if 224 + a = 224 then 160 else 128) \<le> 128 + c"
    and hi: "128 + c \<le> (if 224 + a = 237 then 159 else (191 :: nat))"
    using assms by auto
  have "utf8_decode utf8_initial ((224 + a) # (128 + c) # (128 + d) # rest) =
      utf8_decode
        \<lparr>code_point = a, bytes_seen = 0, bytes_needed = 2,
         lower_boundary = (if 224 + a = 224 then 160 else 128),
         upper_boundary = (if 224 + a = 237 then 159 else 191)\<rparr>
        ((128 + c) # (128 + d) # rest)"
    using assms(1) by (subst utf8_decode_lead3) (simp_all add: m)
  also have "\<dots> =
      utf8_decode
        \<lparr>code_point = a * 64 + c, bytes_seen = 0 + 1, bytes_needed = 2,
         lower_boundary = 128, upper_boundary = 191\<rparr> ((128 + d) # rest)"
    by (subst utf8_decode_continue [OF _ lo hi]) (simp_all add: m)
  also have "\<dots> = ((a * 64 + c) * 64 + d) # utf8_decode utf8_initial rest"
    using assms(3) by (subst utf8_decode_last) (simp_all add: m)
  finally show ?thesis by simp
qed


lemma utf8_decode_four:
  assumes "a \<le> 4" "b < 64" "c < 64" "d < 64" "a = 0 \<longrightarrow> 16 \<le> b" "a = 4 \<longrightarrow> b < 16"
  shows "utf8_decode utf8_initial ((0xF0 + a) # (0x80 + b) # (0x80 + c) # (0x80 + d) # rest) =
         (((a * 64 + b) * 64 + c) * 64 + d) # utf8_decode utf8_initial rest"
proof -
  have m: "(240 + a) mod 8 = a" "(128 + b) mod 64 = b" "(128 + c) mod 64 = c"
    "(128 + d) mod 64 = d"
    using mod_offset [of a 8 30] mod_offset [of b 64 2] mod_offset [of c 64 2]
      mod_offset [of d 64 2] assms
    by simp_all
  have lo: "(if 240 + a = 240 then 144 else 128) \<le> 128 + b"
    and hi: "128 + b \<le> (if 240 + a = 244 then 143 else (191 :: nat))"
    using assms by auto
  have lo': "(128 :: nat) \<le> 128 + c" and hi': "128 + c \<le> 191"
    using assms by simp_all
  have "utf8_decode utf8_initial ((240 + a) # (128 + b) # (128 + c) # (128 + d) # rest) =
      utf8_decode
        \<lparr>code_point = a, bytes_seen = 0, bytes_needed = 3,
         lower_boundary = (if 240 + a = 240 then 144 else 128),
         upper_boundary = (if 240 + a = 244 then 143 else 191)\<rparr>
        ((128 + b) # (128 + c) # (128 + d) # rest)"
    using assms(1) by (subst utf8_decode_lead4) (simp_all add: m)
  also have "\<dots> =
      utf8_decode
        \<lparr>code_point = a * 64 + b, bytes_seen = 0 + 1, bytes_needed = 3,
         lower_boundary = 128, upper_boundary = 191\<rparr> ((128 + c) # (128 + d) # rest)"
    by (subst utf8_decode_continue [OF _ lo hi]) (simp_all add: m)
  also have "\<dots> =
      utf8_decode
        \<lparr>code_point = (a * 64 + b) * 64 + c, bytes_seen = 0 + 1 + 1, bytes_needed = 3,
         lower_boundary = 128, upper_boundary = 191\<rparr> ((128 + d) # rest)"
    by (subst utf8_decode_continue [OF _ lo' hi']) (simp_all add: m)
  also have "\<dots> = (((a * 64 + b) * 64 + c) * 64 + d) # utf8_decode utf8_initial rest"
    using assms(4) by (subst utf8_decode_last) (simp_all add: m)
  finally show ?thesis by simp
qed

lemma digits_two: "(cp :: nat) = cp div 64 * 64 + cp mod 64"
  by simp

lemma digits_three: "(cp :: nat) = (cp div 4096 * 64 + cp div 64 mod 64) * 64 + cp mod 64"
proof -
  have "cp div 4096 = cp div 64 div 64"
    using div_mult2_eq [of cp 64 64] by simp
  then show ?thesis by simp
qed

lemma digits_four:
  "(cp :: nat) =
     ((cp div 262144 * 64 + cp div 4096 mod 64) * 64 + cp div 64 mod 64) * 64 + cp mod 64"
proof -
  have "cp div 262144 = cp div 4096 div 64" "cp div 4096 = cp div 64 div 64"
    using div_mult2_eq [of cp 4096 64] div_mult2_eq [of cp 64 64] by simp_all
  then show ?thesis by simp
qed

lemma utf8_scalar_roundtrip:
  assumes "is_scalar cp"
  shows "utf8_decode utf8_initial (map unat (utf8_encode_scalar cp) @ rest) =
         cp # utf8_decode utf8_initial rest"
proof -
  consider "cp < 0x80" | "0x80 \<le> cp" "cp < 0x800" | "0x800 \<le> cp" "cp < 0x10000"
    | "0x10000 \<le> cp"
    by linarith
  then show ?thesis
  proof cases
    case 1
    then show ?thesis
      by (simp add: utf8_encode_scalar_def unat_of_nat utf8_decode_one)
  next
    case 2
    let ?a = "cp div 64" and ?d = "cp mod 64"
    have b: "2 \<le> ?a" "?a < 32" "?d < 64"
      using 2 by simp_all
    then have "map unat (utf8_encode_scalar cp) = [0xC0 + ?a, 0x80 + ?d]"
      using 2 by (simp add: utf8_encode_scalar_def unat_byte del: of_nat_add)
    with utf8_decode_two [OF b, of rest] digits_two [of cp] show ?thesis
      by simp
  next
    case 3
    let ?a = "cp div 4096" and ?c = "cp div 64 mod 64" and ?d = "cp mod 64"
    have b: "?a < 16" "?c < 64" "?d < 64"
      using 3 by simp_all
    have lo: "?a = 0 \<longrightarrow> 32 \<le> ?c"
      using 3 digits_three [of cp] by auto
    have hi: "?a = 13 \<longrightarrow> ?c < 32"
      using assms 3 digits_three [of cp] by (auto simp: is_scalar_def)
    have "map unat (utf8_encode_scalar cp) = [0xE0 + ?a, 0x80 + ?c, 0x80 + ?d]"
      using 3 b by (simp add: utf8_encode_scalar_def unat_byte del: of_nat_add)
    with utf8_decode_three [OF b lo hi, of rest] digits_three [of cp] show ?thesis
      by simp
  next
    case 4
    let ?a = "cp div 262144" and ?b = "cp div 4096 mod 64" and ?c = "cp div 64 mod 64"
      and ?d = "cp mod 64"
    have "cp < 5 * 262144"
      using assms by (simp add: is_scalar_def)
    then have "?a < 5" by (rule less_mult_imp_div_less)
    then have b: "?a \<le> 4" "?b < 64" "?c < 64" "?d < 64"
      by simp_all
    have lo: "?a = 0 \<longrightarrow> 16 \<le> ?b"
      using 4 digits_four [of cp] by auto
    have hi: "?a = 4 \<longrightarrow> ?b < 16"
      using assms digits_four [of cp] by (auto simp: is_scalar_def)
    have "map unat (utf8_encode_scalar cp) = [0xF0 + ?a, 0x80 + ?b, 0x80 + ?c, 0x80 + ?d]"
      using 4 b by (simp add: utf8_encode_scalar_def unat_byte del: of_nat_add)
    with utf8_decode_four [OF b lo hi, of rest] digits_four [of cp] show ?thesis
      by simp
  qed
qed


lemma utf8_roundtrip:
  "list_all is_scalar cps \<Longrightarrow>
   utf8_decode utf8_initial (map unat (concat (map utf8_encode_scalar cps))) = cps"
proof (induction cps)
  case Nil
  show ?case by (simp add: utf8_decode.simps utf8_initial_def)
next
  case (Cons cp cps)
  then show ?case
    by (simp add: utf8_scalar_roundtrip)
qed

lemma surrogate_ranges:
  "is_lead_surrogate c = (0xD800 \<le> unat c \<and> unat c \<le> 0xDBFF)"
  "is_trail_surrogate c = (0xDC00 \<le> unat c \<and> unat c \<le> 0xDFFF)"
  by (simp_all add: is_lead_surrogate_def is_trail_surrogate_def word_le_nat_alt)

lemma unat_u16: "unat (c :: u16) < 65536"
  using unsigned_less [of c, where ?'a = nat] by simp

lemma word_of_unat_u16: "(of_nat (unat c) :: u16) = c"
  by simp

lemma pair_scalar:
  assumes "is_lead_surrogate c" "is_trail_surrogate d"
  defines "cp \<equiv> 0x10000 + (unat c - 0xD800) * 0x400 + (unat d - 0xDC00)"
  shows "is_scalar cp" "utf16_encode_scalar cp = [c, d]" "cp \<noteq> 0xFEFF"
proof -
  define h where "h = unat c - 0xD800"
  define l where "l = unat d - 0xDC00"
  have h: "h < 0x400" "unat c = 0xD800 + h" and l: "l < 0x400" "unat d = 0xDC00 + l"
    using assms(1,2) by (auto simp: surrogate_ranges h_def l_def)
  have cp: "cp = 0x10000 + (h * 0x400 + l)"
    by (simp add: cp_def h_def l_def)
  show "is_scalar cp" "cp \<noteq> 0xFEFF"
    using h(1) l(1) by (simp_all add: cp is_scalar_def)
  have "(h * 0x400 + l) div 0x400 = h" "(h * 0x400 + l) mod 0x400 = l"
    using l(1) by simp_all
  then have "utf16_encode_scalar cp = [of_nat (unat c), of_nat (unat d)]"
    by (simp add: utf16_encode_scalar_def cp h(2) l(2))
  then show "utf16_encode_scalar cp = [c, d]"
    by (simp only: word_of_unat_u16)
qed

lemma single_scalar:
  assumes "\<not> is_lead_surrogate c" "\<not> is_trail_surrogate c"
  shows "is_scalar (unat c)" "utf16_encode_scalar (unat c) = [c]"
  using assms unat_u16 [of c]
  by (auto simp: surrogate_ranges is_scalar_def utf16_encode_scalar_def)

lemma scalar_values_well_formed:
  "well_formed s \<Longrightarrow>
   list_all is_scalar (scalar_values s) \<and>
   concat (map utf16_encode_scalar (scalar_values s)) = s"
proof (induction s rule: scalar_values.induct)
  case 1
  show ?case by simp
next
  case (2 c)
  then show ?case by (simp add: single_scalar)
next
  case (3 c d rest)
  show ?case
  proof (cases "is_lead_surrogate c")
    case True
    with "3.prems" have d: "is_trail_surrogate d" and w: "well_formed rest"
      by simp_all
    from "3.IH"(1) True d w pair_scalar(1,2) [OF True d] show ?thesis
      by simp
  next
    case False
    with "3.prems" have t: "\<not> is_trail_surrogate c" and w: "well_formed (d # rest)"
      by simp_all
    from "3.IH"(2) False t w single_scalar [OF False t] show ?thesis
      by simp
  qed
qed


lemma well_formed_head:
  assumes "well_formed (c # rest)" "c \<noteq> 0xFEFF"
  shows "\<exists>x xs. scalar_values (c # rest) = x # xs \<and> x \<noteq> 0xFEFF"
proof -
  have u: "unat c \<noteq> 0xFEFF"
  proof
    assume "unat c = 0xFEFF"
    then have "of_nat (unat c) = (0xFEFF :: u16)" by simp
    with assms(2) show False by (simp only: word_of_unat_u16)
  qed
  show ?thesis
  proof (cases rest)
    case Nil
    with assms(1) u show ?thesis by simp
  next
    case (Cons d r)
    show ?thesis
    proof (cases "is_lead_surrogate c \<and> is_trail_surrogate d")
      case True
      then show ?thesis
        using pair_scalar(3) [of c d] Cons by simp
    next
      case False
      with assms(1) u Cons show ?thesis by auto
    qed
  qed
qed

lemma scalar_values_BOM: "scalar_values (0xFEFF # rest) = 0xFEFF # scalar_values rest"
  by (cases rest) (simp_all add: is_lead_surrogate_def is_trail_surrogate_def)

lemma well_formed_BOM: "well_formed (0xFEFF # rest) = well_formed rest"
  by (cases rest) (simp_all add: is_lead_surrogate_def is_trail_surrogate_def)

lemma TextDecoder_decode_TextEncoder_encode:
  assumes "well_formed s"
  shows "TextDecoder_decode (TextEncoder_encode s) =
         (case s of [] \<Rightarrow> [] | c # rest \<Rightarrow> if c = 0xFEFF then rest else s)"
proof -
  have d: "TextDecoder_decode (TextEncoder_encode t) =
      concat (map utf16_encode_scalar (strip_BOM (scalar_values t)))" if "well_formed t" for t
    using scalar_values_well_formed [OF that]
    by (simp add: TextDecoder_decode_def TextEncoder_encode_def utf8_roundtrip)
  show ?thesis
  proof (cases s)
    case Nil
    then show ?thesis
      by (simp add: d strip_BOM_def)
  next
    case (Cons c rest)
    show ?thesis
    proof (cases "c = 0xFEFF")
      case True
      with assms Cons have w: "well_formed rest"
        by (simp add: well_formed_BOM)
      from True Cons have "strip_BOM (scalar_values s) = scalar_values rest"
        by (simp add: scalar_values_BOM strip_BOM_def)
      then have "TextDecoder_decode (TextEncoder_encode s) = rest"
        using scalar_values_well_formed [OF w] by (simp only: d [OF assms])
      with True Cons show ?thesis by simp
    next
      case False
      with assms Cons obtain x xs where "scalar_values s = x # xs" "x \<noteq> 0xFEFF"
        using well_formed_head [of c rest] by auto
      then have "strip_BOM (scalar_values s) = scalar_values s"
        by (simp add: strip_BOM_def)
      then have "TextDecoder_decode (TextEncoder_encode s) = s"
        using scalar_values_well_formed [OF assms] by (simp only: d [OF assms])
      with False Cons show ?thesis by simp
    qed
  qed
qed

text \<open>
  \<open>crypto.getRandomValues(new Uint8Array(n))\<close> takes the next \<open>n\<close> bytes of the
  random source, an infinite sequence of bytes.
\<close>

type_synonym rng = "nat \<Rightarrow> u8"

definition getRandomValues :: "nat \<Rightarrow> rng \<Rightarrow> bytes \<times> rng" where
  "getRandomValues n r = (map r [0..<n], \<lambda>i. r (i + n))"

text \<open>
  The parameters of the platform. \<open>max_arguments\<close> is the largest number of
  arguments the engine accepts in one call. The others are the primitives behind
  \<open>crypto.subtle\<close>: \<open>pbkdf2_sha256 password salt iterations\<close>
  is the 256-bit key that \<open>importKey\<close> and \<open>deriveKey\<close> derive; \<open>aes_gcm_seal key
  iv plaintext\<close> is the ciphertext followed by the 16-byte tag and \<open>aes_gcm_open\<close>
  is \<open>None\<close> when the tag does not verify; \<open>rsa_oaep_generate\<close> returns a key pair
  as its exported SPKI and PKCS8 bytes, \<open>rsa_import_spki\<close> and \<open>rsa_import_pkcs8\<close>
  are \<open>importKey\<close> for these two formats, \<open>rsa_oaep_seal key seed data\<close>
  encrypts under an imported public key with the random seed OAEP draws, and
  \<open>rsa_oaep_open key data\<close> decrypts under an imported private key.

  \<open>fromCharCode_spread\<close> is the call \<open>String.fromCharCode(...bytes)\<close>: the spread
  passes every byte as an argument of its own, and the engine throws a \<open>RangeError\<close>
  when there are more of them than it accepts.

  \<open>decrypt_AES_GCM\<close> is \<open>crypto.subtle.decrypt\<close> for AES-GCM as the Web
  Cryptography standard defines it: data shorter than the tag is rejected with an
  \<open>OperationError\<close>, and so is data whose tag does not verify. \<open>importKey_HMAC\<close> is
  \<open>crypto.subtle.importKey('raw', keyData, {name: 'HMAC', ...})\<close>, which rejects a
  key of length zero with a \<open>DataError\<close>.
\<close>

record platform =
  max_arguments :: nat
  pbkdf2_sha256 :: "bytes \<Rightarrow> bytes \<Rightarrow> nat \<Rightarrow> bytes"
  aes_gcm_seal :: "bytes \<Rightarrow> bytes \<Rightarrow> bytes \<Rightarrow> bytes"
  aes_gcm_open :: "bytes \<Rightarrow> bytes \<Rightarrow> bytes \<Rightarrow> bytes option"
  hmac_sha256 :: "bytes \<Rightarrow> bytes \<Rightarrow> bytes"
  rsa_oaep_generate :: "nat \<Rightarrow> rng \<Rightarrow> bytes \<times> bytes"
  rsa_import_spki :: "bytes \<Rightarrow> js_error + bytes"
  rsa_import_pkcs8 :: "bytes \<Rightarrow> js_error + bytes"
  rsa_oaep_seal :: "bytes \<Rightarrow> bytes \<Rightarrow> bytes \<Rightarrow> js_error + bytes"
  rsa_oaep_open :: "bytes \<Rightarrow> bytes \<Rightarrow> js_error + bytes"

definition fromCharCode_spread :: "platform \<Rightarrow> bytes \<Rightarrow> js_error + jsstring" where
  "fromCharCode_spread W codes =
     (if max_arguments W < length codes then Inl RangeError else Inr (fromCharCode codes))"

definition decrypt_AES_GCM :: "platform \<Rightarrow> bytes \<Rightarrow> bytes \<Rightarrow> bytes \<Rightarrow> js_error + bytes" where
  "decrypt_AES_GCM W key iv data =
     (if length data < 16 then Inl OperationError
      else case aes_gcm_open W key iv data of
             None \<Rightarrow> Inl OperationError
           | Some plaintext \<Rightarrow> Inr plaintext)"

definition importKey_HMAC :: "bytes \<Rightarrow> js_error + bytes" where
  "importKey_HMAC keyData = (if length keyData = 0 then Inl DataError else Inr keyData)"

section \<open>The cryptography module\<close>

text \<open>
  \<^verbatim>\<open>
  export interface EncryptionResult {
    encrypted: string; iv?: string; salt?: string; metadata?: any;
  }
  export interface KeyPair {
    publicKey: string; privateKey: string; keySize: number; created: string;
  }
  \<close>
  The only metadata the module writes or reads is \<open>{ encryptedKey, algorithm }\<close>.
\<close>

record hybrid_metadata =
  encryptedKey :: "jsstring option"
  algorithm :: "jsstring option"

record EncryptionResult =
  encrypted :: jsstring
  iv :: "jsstring option"
  salt :: "jsstring option"
  metadata :: "hybrid_metadata option"

record KeyPair =
  publicKey :: jsstring
  privateKey :: jsstring
  keySize :: nat
  created :: jsstring

text \<open>
  \<^verbatim>\<open>
  export async function encryptAES256(text: string, password: string) {
    const encoder = new TextEncoder();
    const data = encoder.encode(text);
    const salt = crypto.getRandomValues(new Uint8Array(16));
    const keyMaterial = await crypto.subtle.importKey('raw', encoder.encode(password),
      { name: 'PBKDF2' }, false, ['deriveKey']);
    const key = await crypto.subtle.deriveKey(
      { name: 'PBKDF2', salt: salt, iterations: 100000, hash: 'SHA-256' },
      keyMaterial, { name: 'AES-GCM', length: 256 }, false, ['encrypt']);
    const iv = crypto.getRandomValues(new Uint8Array(12));
    const encrypted = await crypto.subtle.encrypt({ name: 'AES-GCM', iv: iv }, key, data);
    const combined = new Uint8Array(salt.length + iv.length + encrypted.byteLength);
    combined.set(salt, 0);
    combined.set(iv, salt.length);
    combined.set(new Uint8Array(encrypted), salt.length + iv.length);
    return {
      encrypted: btoa(String.fromCharCode(...combined)),
      salt: btoa(String.fromCharCode(...salt)),
      iv: btoa(String.fromCharCode(...iv))
    };
  }
  \<close>
  The function also returns the random source it leaves behind.
\<close>

definition encryptAES256 ::
  "platform \<Rightarrow> jsstring \<Rightarrow> jsstring \<Rightarrow> rng \<Rightarrow> js_error + EncryptionResult \<times> rng" where
  "encryptAES256 W text password r0 =
     (let data = TextEncoder_encode text;
          (salt, r1) = getRandomValues 16 r0;
          key = pbkdf2_sha256 W (TextEncoder_encode password) salt 100000;
          (iv, r2) = getRandomValues 12 r1;
          encrypted = aes_gcm_seal W key iv data;
          combined = salt @ iv @ encrypted
      in await (await (fromCharCode_spread W combined) btoa) (\<lambda>e.
         await (await (fromCharCode_spread W salt) btoa) (\<lambda>s.
         await (await (fromCharCode_spread W iv) btoa) (\<lambda>i.
           Inr (\<lparr>encrypted = e, iv = Some i, salt = Some s, metadata = None\<rparr>, r2)))))"

text \<open>
  \<^verbatim>\<open>
  export async function decryptAES256(encryptedData: string, password: string) {
    const encoder = new TextEncoder();
    const combined = new Uint8Array(atob(encryptedData).split('').map(c => c.charCodeAt(0)));
    const salt = combined.slice(0, 16);
    const iv = combined.slice(16, 28);
    const encrypted = combined.slice(28);
    const keyMaterial = await crypto.subtle.importKey(...);
    const key = await crypto.subtle.deriveKey(..., ['decrypt']);
    const decrypted = await crypto.subtle.decrypt({ name: 'AES-GCM', iv: iv }, key, encrypted);
    return new TextDecoder().decode(decrypted);
  }
  \<close>
  \<open>split_envelope\<close> is the three \<open>slice\<close> statements.
\<close>

definition slice :: "nat \<Rightarrow> nat \<Rightarrow> 'a list \<Rightarrow> 'a list" where
  "slice start end xs = take (end - start) (drop start xs)"

definition split_envelope :: "bytes \<Rightarrow> bytes \<times> bytes \<times> bytes" where
  "split_envelope combined = (slice 0 16 combined, slice 16 28 combined, drop 28 combined)"

definition decryptAES256 :: "platform \<Rightarrow> jsstring \<Rightarrow> jsstring \<Rightarrow> js_error + jsstring" where
  "decryptAES256 W encryptedData password =
     await (atob encryptedData) (\<lambda>binary.
       let combined = charCodes binary;
           (salt, iv, encrypted) = split_envelope combined;
           key = pbkdf2_sha256 W (TextEncoder_encode password) salt 100000
       in await (decrypt_AES_GCM W key iv encrypted) (\<lambda>decrypted.
            Inr (TextDecoder_decode decrypted)))"

text \<open>
  \<open>generateRSAKeyPair\<close>, \<open>encryptRSA\<close> and \<open>decryptRSA\<close>: the keys travel as the
  base64 of their exported bytes. \<open>now\<close> is \<open>new Date().toISOString()\<close>, and
  \<open>seed\<close> the randomness of the OAEP padding. \<open>decryptRSA\<close> imports the private
  key before it decodes the ciphertext.
\<close>

definition generateRSAKeyPair ::
  "platform \<Rightarrow> nat \<Rightarrow> jsstring \<Rightarrow> rng \<Rightarrow> js_error + KeyPair" where
  "generateRSAKeyPair W keySize' now r =
     (let (spki, pkcs8) = rsa_oaep_generate W keySize' r
      in await (await (fromCharCode_spread W spki) btoa) (\<lambda>pub.
         await (await (fromCharCode_spread W pkcs8) btoa) (\<lambda>priv.
           Inr \<lparr>publicKey = pub, privateKey = priv, keySize = keySize', created = now\<rparr>)))"

definition encryptRSA ::
  "platform \<Rightarrow> jsstring \<Rightarrow> jsstring \<Rightarrow> bytes \<Rightarrow> js_error + jsstring" where
  "encryptRSA W text publicKeyB64 seed =
     (let data = TextEncoder_encode text
      in await (atob publicKeyB64) (\<lambda>b.
           let publicKeyBuffer = charCodes b
           in await (rsa_import_spki W publicKeyBuffer) (\<lambda>key.
              await (rsa_oaep_seal W key seed data) (\<lambda>encrypted.
                await (fromCharCode_spread W encrypted) btoa))))"

definition decryptRSA :: "platform \<Rightarrow> jsstring \<Rightarrow> jsstring \<Rightarrow> js_error + jsstring" where
  "decryptRSA W encryptedData privateKeyB64 =
     await (atob privateKeyB64) (\<lambda>b.
       let privateKeyBuffer = charCodes b
       in await (rsa_import_pkcs8 W privateKeyBuffer) (\<lambda>key.
          await (atob encryptedData) (\<lambda>e.
            let encryptedBuffer = charCodes e
            in await (rsa_oaep_open W key encryptedBuffer) (\<lambda>decrypted.
                 Inr (TextDecoder_decode decrypted)))))"

text \<open>
  \<^verbatim>\<open>
  export async function generateHMAC(text: string, secret: string): Promise<string> {
    const encoder = new TextEncoder();
    const keyData = encoder.encode(secret);
    const messageData = encoder.encode(text);
    const key = await crypto.subtle.importKey('raw', keyData,
      { name: 'HMAC', hash: 'SHA-256' }, false, ['sign']);
    const signature = await crypto.subtle.sign('HMAC', key, messageData);
    const hashArray = Array.from(new Uint8Array(signature));
    return hashArray.map(b => b.toString(16).padStart(2, '0')).join('');
  }
  \<close>
\<close>

definition hex_bytes :: "bytes \<Rightarrow> jsstring" where
  "hex_bytes hashArray =
     concat (map (\<lambda>b. padStart 2 0x30 (toString_radix 16 (unat b))) hashArray)"

definition generateHMAC :: "platform \<Rightarrow> jsstring \<Rightarrow> jsstring \<Rightarrow> js_error + jsstring" where
  "generateHMAC W text secret =
     (let keyData = TextEncoder_encode secret;
          messageData = TextEncoder_encode text
      in await (importKey_HMAC keyData) (\<lambda>key.
           let signature = hmac_sha256 W key messageData
           in Inr (hex_bytes signature)))"

text \<open>
  \<^verbatim>\<open>
  export async function hybridEncrypt(text: string, publicKeyB64: string) {
    const aesKey = crypto.getRandomValues(new Uint8Array(32));
    const aesKeyB64 = btoa(String.fromCharCode(...aesKey));
    const aesResult = await encryptAES256(text, aesKeyB64);
    const encryptedKey = await encryptRSA(aesKeyB64, publicKeyB64);
    return { encrypted: aesResult.encrypted, iv: aesResult.iv, salt: aesResult.salt,
             metadata: { encryptedKey, algorithm: 'hybrid' } };
  }
  export async function hybridDecrypt(encryptedData: string, privateKeyB64: string,
                                      metadata: any) {
    if (!metadata?.encryptedKey) {
      throw new Error('Missing encrypted key in metadata');
    }
    const aesKey = await decryptRSA(metadata.encryptedKey, privateKeyB64);
    return await decryptAES256(encryptedData, aesKey);
  }
  \<close>
\<close>

definition hybridEncrypt ::
  "platform \<Rightarrow> jsstring \<Rightarrow> jsstring \<Rightarrow> rng \<Rightarrow> js_error + EncryptionResult \<times> rng" where
  "hybridEncrypt W text publicKeyB64 r0 =
     (let (aesKey, r1) = getRandomValues 32 r0
      in await (await (fromCharCode_spread W aesKey) btoa) (\<lambda>aesKeyB64.
         await (encryptAES256 W text aesKeyB64 r1) (\<lambda>(aesResult, r2).
           let (seed, r3) = getRandomValues 32 r2
           in await (encryptRSA W aesKeyB64 publicKeyB64 seed) (\<lambda>encryptedKey.
                Inr (\<lparr>encrypted = encrypted aesResult, iv = iv aesResult,
                      salt = salt aesResult,
                      metadata = Some \<lparr>encryptedKey = Some encryptedKey,
                                        algorithm = Some (js ''hybrid'')\<rparr>\<rparr>, r3)))))"

definition hybridDecrypt ::
  "platform \<Rightarrow> jsstring \<Rightarrow> jsstring \<Rightarrow> hybrid_metadata option \<Rightarrow> js_error + jsstring" where
  "hybridDecrypt W encryptedData privateKeyB64 metadata' =
     (case (case metadata' of None \<Rightarrow> None | Some m \<Rightarrow> encryptedKey m) of
        None \<Rightarrow> Inl (Error (js ''Missing encrypted key in metadata''))
      | Some k \<Rightarrow>
          if k = [] then Inl (Error (js ''Missing encrypted key in metadata''))
          else await (decryptRSA W k privateKeyB64) (\<lambda>aesKey.
                 decryptAES256 W encryptedData aesKey))"

text \<open>
  A stand-in for the platform, on which the functions above can be evaluated: it
  accepts 65535 arguments in a call, its cipher appends a 16-byte tag made from the key
  to the plaintext, and its public-key scheme enforces the OAEP payload ceiling and
  pads the payload to the length of the modulus, after the seed, with zero bytes and
  a byte 1. \<open>counting_rng\<close> is a random source.
\<close>

definition toy_tag :: "bytes \<Rightarrow> bytes \<Rightarrow> bytes" where
  "toy_tag key nonce = take 16 (key @ replicate 16 0)"

definition toy_crypto :: platform where
  "toy_crypto =
     \<lparr>max_arguments = 65535,
      pbkdf2_sha256 = (\<lambda>password s n. take 32 (password @ s @ replicate 32 0)),
      aes_gcm_seal = (\<lambda>key nonce plaintext. plaintext @ toy_tag key nonce),
      aes_gcm_open = (\<lambda>key nonce data.
         if 16 \<le> length data \<and> drop (length data - 16) data = toy_tag key nonce
         then Some (take (length data - 16) data) else None),
      hmac_sha256 = (\<lambda>key message. take 32 (key @ message @ replicate 32 0)),
      rsa_oaep_generate = (\<lambda>bits r. ([of_nat (bits div 256)], [of_nat (bits div 256)])),
      rsa_import_spki = (\<lambda>spki. case spki of [k] \<Rightarrow> Inr [k] | _ \<Rightarrow> Inl DataError),
      rsa_import_pkcs8 = (\<lambda>pkcs8. case pkcs8 of [k] \<Rightarrow> Inr [k] | _ \<Rightarrow> Inl DataError),
      rsa_oaep_seal = (\<lambda>key seed data.
         let n = unat (hd key) * 32
         in if length data + 66 \<le> n
            then Inr (seed @ replicate (n - 33 - length data) 0 @ 1 # data)
            else Inl OperationError),
      rsa_oaep_open = (\<lambda>key data.
         if length data = unat (hd key) * 32
         then Inr (tl (dropWhile (\<lambda>b. b = 0) (drop 32 data)))
         else Inl OperationError)\<rparr>"

definition counting_rng :: rng where
  "counting_rng = (\<lambda>i. of_nat i)"

definition is_ascii :: "jsstring \<Rightarrow> bool" where
  "is_ascii s = list_all (\<lambda>c. c < 0x80) s"

lemma ascii_not_surrogate:
  "c < 0x80 \<Longrightarrow> \<not> is_lead_surrogate c \<and> \<not> is_trail_surrogate c"
  by (simp add: is_lead_surrogate_def is_trail_surrogate_def word_le_nat_alt word_less_nat_alt)

lemma scalar_values_ascii: "is_ascii s \<Longrightarrow> scalar_values s = map unat s"
  unfolding is_ascii_def
  by (induction s rule: scalar_values.induct) (simp_all add: ascii_not_surrogate)

lemma TextEncoder_encode_ascii:
  assumes "is_ascii s"
  shows "map unat (TextEncoder_encode s) = map unat s"
proof -
  have "map unat (concat (map utf8_encode_scalar (map unat t))) = map unat t"
    if "list_all (\<lambda>c. c < 0x80) t" for t :: jsstring
    using that
  proof (induction t)
    case Nil
    then show ?case by simp
  next
    case (Cons c t)
    then have "unat c < 128" by (simp add: word_less_nat_alt)
    then have "map unat (utf8_encode_scalar (unat c)) = [unat c]"
      by (simp add: utf8_encode_scalar_def unsigned_ucast_eq take_bit_nat_eq_self)
    with Cons show ?case by simp
  qed
  with assms show ?thesis
    by (simp add: TextEncoder_encode_def scalar_values_ascii is_ascii_def)
qed

lemma length_TextEncoder_encode_ascii: "is_ascii s \<Longrightarrow> length (TextEncoder_encode s) = length s"
  using TextEncoder_encode_ascii [of s] by (metis length_map)

text \<open>
  What the theorems assume of the primitives: authenticated decryption inverts
  encryption under the same key and nonce, and the ciphertext is the plaintext length
  plus the 16-byte tag.
\<close>

definition gcm_correct :: "platform \<Rightarrow> bool" where
  "gcm_correct W =
     (\<forall>key nonce plaintext.
        aes_gcm_open W key nonce (aes_gcm_seal W key nonce plaintext) = Some plaintext \<and>
        length (aes_gcm_seal W key nonce plaintext) = length plaintext + 16)"

lemma length_getRandomValues: "length (fst (getRandomValues n r)) = n"
  by (simp add: getRandomValues_def)

lemma await_Inr: "await (Inr v) k = k v"
  by (simp add: await_def)

lemma await_Inl: "await (Inl e) k = Inl e"
  by (simp add: await_def)

lemma spread_btoa:
  "length bs \<le> max_arguments W \<Longrightarrow>
     await (fromCharCode_spread W bs) btoa = Inr (b64_encode (map unat bs))"
  by (simp add: fromCharCode_spread_def await_def btoa_fromCharCode)

lemma spread_overflow:
  "max_arguments W < length bs \<Longrightarrow> await (fromCharCode_spread W bs) btoa = Inl RangeError"
  by (simp add: fromCharCode_spread_def await_def)

lemma encryptAES256_result:
  fixes W T P r
  defines "s \<equiv> fst (getRandomValues 16 r)"
    and "n \<equiv> fst (getRandomValues 12 (snd (getRandomValues 16 r)))"
  defines "c \<equiv> aes_gcm_seal W (pbkdf2_sha256 W (TextEncoder_encode P) s 100000) n
                 (TextEncoder_encode T)"
  assumes "28 + length c \<le> max_arguments W"
  shows "encryptAES256 W T P r =
     Inr (\<lparr>encrypted = b64_encode (map unat (s @ n @ c)),
           iv = Some (b64_encode (map unat n)),
           salt = Some (b64_encode (map unat s)),
           metadata = None\<rparr>,
          snd (getRandomValues 12 (snd (getRandomValues 16 r))))"
proof -
  have l: "length s = 16" "length n = 12"
    by (simp_all add: s_def n_def length_getRandomValues)
  with assms(4) have "length (s @ n @ c) \<le> max_arguments W" "length s \<le> max_arguments W"
    "length n \<le> max_arguments W"
    by simp_all
  then have "await (fromCharCode_spread W (s @ n @ c)) btoa = Inr (b64_encode (map unat (s @ n @ c)))"
    "await (fromCharCode_spread W s) btoa = Inr (b64_encode (map unat s))"
    "await (fromCharCode_spread W n) btoa = Inr (b64_encode (map unat n))"
    by (simp_all only: spread_btoa)
  then show ?thesis
    unfolding encryptAES256_def s_def n_def c_def
    by (simp add: Let_def case_prod_beta await_def del: map_append)
qed

lemma encryptAES256_overflow:
  fixes W T P r
  defines "s \<equiv> fst (getRandomValues 16 r)"
    and "n \<equiv> fst (getRandomValues 12 (snd (getRandomValues 16 r)))"
  defines "c \<equiv> aes_gcm_seal W (pbkdf2_sha256 W (TextEncoder_encode P) s 100000) n
                 (TextEncoder_encode T)"
  assumes "max_arguments W < 28 + length c"
  shows "encryptAES256 W T P r = Inl RangeError"
proof -
  have l: "length s = 16" "length n = 12"
    by (simp_all add: s_def n_def length_getRandomValues)
  with assms(4) have "max_arguments W < length (s @ n @ c)"
    by simp
  then have "await (fromCharCode_spread W (s @ n @ c)) btoa = Inl RangeError"
    by (rule spread_overflow)
  then show ?thesis
    unfolding encryptAES256_def s_def n_def c_def
    by (simp add: Let_def case_prod_beta await_def del: map_append)
qed

lemma atob_b64_encode_bytes:
  "atob (b64_encode (map unat bs)) = Inr (fromCharCode bs)"
  by (simp add: atob_b64_encode list_all_unat_byte fromCharCode_def)

lemma charCodes_fromCharCode: "charCodes (fromCharCode bs) = bs"
  by (simp add: charCodes_def fromCharCode_def ucast_up_ucast_id is_up map_idI)

lemma split_envelope_append:
  "length s = 16 \<Longrightarrow> length n = 12 \<Longrightarrow> split_envelope (s @ n @ c) = (s, n, c)"
  by (simp add: split_envelope_def slice_def)

lemma split_envelope_eq:
  "split_envelope combined = (take 16 combined, take 12 (drop 16 combined), drop 28 combined)"
  by (simp add: split_envelope_def slice_def)

lemma decryptAES256_envelope:
  assumes "length s = 16" "length n = 12"
  shows "decryptAES256 W (b64_encode (map unat (s @ n @ c))) P =
     await (decrypt_AES_GCM W (pbkdf2_sha256 W (TextEncoder_encode P) s 100000) n c)
       (\<lambda>decrypted. Inr (TextDecoder_decode decrypted))"
  unfolding decryptAES256_def atob_b64_encode_bytes
  by (simp add: await_def Let_def charCodes_fromCharCode split_envelope_append [OF assms])

lemma encryptAES256_returns:
  assumes "gcm_correct W"
  shows "isl (encryptAES256 W T P r) = (max_arguments W < length (TextEncoder_encode T) + 44)"
    and "max_arguments W < length (TextEncoder_encode T) + 44 \<Longrightarrow>
           encryptAES256 W T P r = Inl RangeError"
proof -
  let ?s = "fst (getRandomValues 16 r)"
  let ?n = "fst (getRandomValues 12 (snd (getRandomValues 16 r)))"
  let ?c = "aes_gcm_seal W (pbkdf2_sha256 W (TextEncoder_encode P) ?s 100000) ?n
              (TextEncoder_encode T)"
  have c: "28 + length ?c = length (TextEncoder_encode T) + 44"
    using assms by (simp add: gcm_correct_def)
  show o: "encryptAES256 W T P r = Inl RangeError"
    if "max_arguments W < length (TextEncoder_encode T) + 44"
    using that encryptAES256_overflow [of W P r T] by (simp only: c)
  show "isl (encryptAES256 W T P r) = (max_arguments W < length (TextEncoder_encode T) + 44)"
  proof (cases "max_arguments W < length (TextEncoder_encode T) + 44")
    case True
    with o show ?thesis by simp
  next
    case False
    then have "28 + length ?c \<le> max_arguments W" by (simp only: c not_less)
    then show ?thesis using False by (simp add: encryptAES256_result)
  qed
qed

lemma encryptAES256_fit:
  assumes "gcm_correct W" and "length (TextEncoder_encode T) + 44 \<le> max_arguments W"
  shows "\<exists>res. encryptAES256 W T P r =
           Inr (res, snd (getRandomValues 12 (snd (getRandomValues 16 r))))"
proof -
  let ?s = "fst (getRandomValues 16 r)"
  let ?n = "fst (getRandomValues 12 (snd (getRandomValues 16 r)))"
  let ?c = "aes_gcm_seal W (pbkdf2_sha256 W (TextEncoder_encode P) ?s 100000) ?n
              (TextEncoder_encode T)"
  have "28 + length ?c \<le> max_arguments W"
    using assms by (simp add: gcm_correct_def)
  then show ?thesis
    by (simp add: encryptAES256_result del: map_append)
qed

lemma decrypt_after_encrypt:
  assumes "gcm_correct W" and fit: "length (TextEncoder_encode T) + 44 \<le> max_arguments W"
  shows "decryptAES256 W (encrypted (fst (projr (encryptAES256 W T P r)))) P =
     Inr (TextDecoder_decode (TextEncoder_encode T))"
proof -
  let ?s = "fst (getRandomValues 16 r)"
  let ?n = "fst (getRandomValues 12 (snd (getRandomValues 16 r)))"
  let ?k = "pbkdf2_sha256 W (TextEncoder_encode P) ?s 100000"
  let ?c = "aes_gcm_seal W ?k ?n (TextEncoder_encode T)"
  have l: "length ?s = 16" "length ?n = 12"
    by (simp_all add: length_getRandomValues)
  have c: "28 + length ?c \<le> max_arguments W"
    using assms by (simp add: gcm_correct_def)
  have "decrypt_AES_GCM W ?k ?n ?c = Inr (TextEncoder_encode T)"
    using assms(1) by (simp add: decrypt_AES_GCM_def gcm_correct_def)
  moreover have "encrypted (fst (projr (encryptAES256 W T P r))) =
      b64_encode (map unat (?s @ ?n @ ?c))"
    by (simp add: encryptAES256_result [OF c] del: map_append)
  ultimately show ?thesis
    by (simp only: decryptAES256_envelope [OF l]) (simp add: await_def)
qed

lemma BOM_lost: "TextDecoder_decode (TextEncoder_encode [0xFEFF, 0x61]) = [0x61]"
  by (simp add: TextDecoder_decode_def TextEncoder_encode_def utf8_encode_scalar_def
      is_lead_surrogate_def is_trail_surrogate_def utf8_decode.simps utf8_initial_def
      strip_BOM_def utf16_encode_scalar_def)

lemma decryptAES256_short:
  assumes "atob blob = Inr binary" "length binary < 28"
  shows "decryptAES256 W blob P = Inl OperationError"
  using assms
  by (simp add: decryptAES256_def await_def Let_def split_envelope_eq charCodes_def
      decrypt_AES_GCM_def)

lemma decryptAES256_tag_failure:
  assumes "atob blob = Inr binary"
    and "(case split_envelope (charCodes binary) of (s, n, c) \<Rightarrow>
            aes_gcm_open W (pbkdf2_sha256 W (TextEncoder_encode P) s 100000) n c) = None"
  shows "decryptAES256 W blob P = Inl OperationError"
  using assms
  by (simp add: decryptAES256_def await_def Let_def decrypt_AES_GCM_def split: prod.splits)

lemma scalar_values_nonempty: "s \<noteq> [] \<Longrightarrow> scalar_values s \<noteq> []"
  by (induction s rule: scalar_values.induct) simp_all

lemma utf8_encode_scalar_nonempty: "utf8_encode_scalar cp \<noteq> []"
  by (simp add: utf8_encode_scalar_def)

lemma TextEncoder_encode_nonempty: "s \<noteq> [] \<Longrightarrow> TextEncoder_encode s \<noteq> []"
  using scalar_values_nonempty [of s]
  by (cases "scalar_values s") (simp_all add: TextEncoder_encode_def utf8_encode_scalar_nonempty)

lemma TextEncoder_encode_Nil: "TextEncoder_encode [] = []"
  by (simp add: TextEncoder_encode_def)

text \<open>
  Claim C7, as the code has it. \<open>generateHMAC\<close> has no test of its secret. With
  the empty secret the key data is empty and the call is rejected by the platform:
  the key import fails with a \<open>DataError\<close> before anything is signed. Every other
  secret yields the hexadecimal digest.
\<close>

theorem generateHMAC_empty_secret:
  "generateHMAC W t [] = Inl DataError \<and>
   (secret \<noteq> [] \<longrightarrow>
      generateHMAC W t secret =
        Inr (hex_bytes (hmac_sha256 W (TextEncoder_encode secret) (TextEncoder_encode t))))"
  using TextEncoder_encode_nonempty [of secret]
  by (simp add: generateHMAC_def importKey_HMAC_def await_def Let_def TextEncoder_encode_Nil)

theorem generateHMAC_empty_secret_witness:
  "generateHMAC toy_crypto (js ''abc'') [] = Inl DataError \<and> js ''k'' \<noteq> [] \<and>
   generateHMAC toy_crypto (js ''abc'') (js ''k'') =
     Inr (hex_bytes (hmac_sha256 toy_crypto (TextEncoder_encode (js ''k''))
                       (TextEncoder_encode (js ''abc''))))"
  using generateHMAC_empty_secret [of toy_crypto "js ''abc''" "js ''k''"]
  by (simp add: js_def)

text \<open>
  Claim C7 as stated fails: the rejection of the empty secret is the \<open>DataError\<close>
  of the key import, not an error that the module raises; the module has no error of
  its own for an empty secret.
\<close>

theorem generateHMAC_platform_error_counterexample:
  "importKey_HMAC (TextEncoder_encode []) = Inl DataError \<and>
   generateHMAC toy_crypto (js ''abc'') [] = Inl DataError \<and>
   (\<forall>message. generateHMAC toy_crypto (js ''abc'') [] \<noteq> Inl (Error message))"
  by (simp add: generateHMAC_def importKey_HMAC_def await_def Let_def TextEncoder_encode_Nil)


lemma length_toy_tag: "length (toy_tag key nonce) = 16"
  by (simp add: toy_tag_def min_def)

lemma toy_gcm_correct: "gcm_correct toy_crypto"
  by (simp add: gcm_correct_def toy_crypto_def length_toy_tag)

lemma atob_AAAA: "atob (js ''AAAA'') = Inr [0, 0, 0]"
  by (simp add: atob_def js_def strip_padding_def is_ascii_whitespace_def b64_index_def)

lemma atob_zero_envelope:
  "atob (b64_encode (map unat (replicate 44 (0 :: u8)))) = Inr (fromCharCode (replicate 44 0))"
  by (rule atob_b64_encode_bytes)

text \<open>
  Claim C3, as the code has it. A blob that decodes to fewer than 28 bytes leaves no
  ciphertext after the salt and the nonce are sliced off, and decryption is rejected
  with the \<open>OperationError\<close> of AES-GCM. A blob whose tag does not verify is rejected
  with the same \<open>OperationError\<close>: the module has no error of its own for a malformed
  envelope.
\<close>

theorem decryptAES256_undersized:
  "(atob blob = Inr binary \<and> length binary < 28 \<longrightarrow>
      decryptAES256 W blob P = Inl OperationError) \<and>
   (atob blob = Inr binary \<and>
    (case split_envelope (charCodes binary) of (s, n, c) \<Rightarrow>
       aes_gcm_open W (pbkdf2_sha256 W (TextEncoder_encode P) s 100000) n c) = None \<longrightarrow>
      decryptAES256 W blob P = Inl OperationError)"
  using decryptAES256_short [of blob binary W P] decryptAES256_tag_failure [of blob binary W P]
  by blast

lemma toy_open_zero:
  "(case split_envelope (charCodes (fromCharCode (replicate 44 0))) of (s, n, c) \<Rightarrow>
      aes_gcm_open toy_crypto
        (pbkdf2_sha256 toy_crypto (TextEncoder_encode (js ''pw'')) s 100000) n c) = None"
  by (simp add: charCodes_fromCharCode split_envelope_eq toy_crypto_def toy_tag_def
      TextEncoder_encode_def js_def utf8_encode_scalar_def is_lead_surrogate_def
      is_trail_surrogate_def replicate_numeral)

theorem decryptAES256_undersized_witness:
  "atob (js ''AAAA'') = Inr [0, 0, 0] \<and>
   decryptAES256 toy_crypto (js ''AAAA'') (js ''pw'') = Inl OperationError \<and>
   atob (b64_encode (map unat (replicate 44 (0 :: u8)))) = Inr (fromCharCode (replicate 44 0)) \<and>
   decryptAES256 toy_crypto (b64_encode (map unat (replicate 44 (0 :: u8)))) (js ''pw'') =
     Inl OperationError"
  using decryptAES256_undersized [of "js ''AAAA''" "[0, 0, 0]" toy_crypto "js ''pw''"]
    decryptAES256_undersized [of "b64_encode (map unat (replicate 44 (0 :: u8)))"
      "fromCharCode (replicate 44 0)" toy_crypto "js ''pw''"]
    atob_AAAA atob_zero_envelope toy_open_zero
  by simp

text \<open>
  Claim C3 as stated fails: the three-byte blob \<open>AAAA\<close> and a full-size envelope of
  44 zero bytes, whose tag does not verify, are rejected with one and the same error.
\<close>

theorem decryptAES256_same_error_counterexample:
  "decryptAES256 toy_crypto (js ''AAAA'') (js ''pw'') =
     decryptAES256 toy_crypto (b64_encode (map unat (replicate 44 (0 :: u8)))) (js ''pw'') \<and>
   decryptAES256 toy_crypto (js ''AAAA'') (js ''pw'') = Inl OperationError"
  using decryptAES256_short [OF atob_AAAA, of toy_crypto "js ''pw''"]
    decryptAES256_tag_failure [OF atob_zero_envelope toy_open_zero]
  by simp



lemma max_arguments_toy: "max_arguments toy_crypto = 65535"
  by (simp add: toy_crypto_def)


lemma length_encode_letters: "length (TextEncoder_encode (replicate n 0x61)) = n"
  by (simp add: length_TextEncoder_encode_ascii is_ascii_def list_all_iff)


text \<open>
  Claim C1 on the code. With a correct cipher, \<open>encryptAES256\<close> returns exactly
  when the engine accepts the envelope, the UTF-8 bytes of the text and 44 more, as
  the arguments of one call, and throws a \<open>RangeError\<close> otherwise. When it returns,
  decrypting what it produced under the same password returns exactly the text when
  the text is well-formed and does not begin with U+FEFF. For a text that begins with
  U+FEFF the round trip fails: \<open>TextDecoder\<close> removes the leading byte order mark,
  so U+FEFF followed by \<open>T\<close> comes back as \<open>T\<close>.
\<close>

theorem decrypt_encrypt_roundtrip:
  "gcm_correct W \<longrightarrow>
     isl (encryptAES256 W T P r) = (max_arguments W < length (TextEncoder_encode T) + 44) \<and>
     (max_arguments W < length (TextEncoder_encode T) + 44 \<longrightarrow>
        encryptAES256 W T P r = Inl RangeError) \<and>
     (length (TextEncoder_encode T) + 44 \<le> max_arguments W \<and>
      well_formed T \<and> (T = [] \<or> hd T \<noteq> 0xFEFF) \<longrightarrow>
        decryptAES256 W (encrypted (fst (projr (encryptAES256 W T P r)))) P = Inr T) \<and>
     (length (TextEncoder_encode (0xFEFF # T)) + 44 \<le> max_arguments W \<and> well_formed T \<longrightarrow>
        decryptAES256 W (encrypted (fst (projr (encryptAES256 W (0xFEFF # T) P r)))) P = Inr T)"
proof (intro impI conjI)
  assume g: "gcm_correct W"
  show "isl (encryptAES256 W T P r) = (max_arguments W < length (TextEncoder_encode T) + 44)"
    by (rule encryptAES256_returns(1) [OF g])
  {
    assume "max_arguments W < length (TextEncoder_encode T) + 44"
    then show "encryptAES256 W T P r = Inl RangeError"
      by (rule encryptAES256_returns(2) [OF g])
  }
  {
    assume a: "length (TextEncoder_encode T) + 44 \<le> max_arguments W \<and>
      well_formed T \<and> (T = [] \<or> hd T \<noteq> 0xFEFF)"
    then have "TextDecoder_decode (TextEncoder_encode T) = T"
      by (cases T) (auto simp: TextDecoder_decode_TextEncoder_encode)
    with a show "decryptAES256 W (encrypted (fst (projr (encryptAES256 W T P r)))) P = Inr T"
      by (simp add: decrypt_after_encrypt [OF g])
  }
  {
    assume a: "length (TextEncoder_encode (0xFEFF # T)) + 44 \<le> max_arguments W \<and> well_formed T"
    then have "TextDecoder_decode (TextEncoder_encode (0xFEFF # T)) = T"
      by (simp add: TextDecoder_decode_TextEncoder_encode well_formed_BOM)
    with a show "decryptAES256 W (encrypted (fst (projr (encryptAES256 W (0xFEFF # T) P r)))) P =
        Inr T"
      by (simp add: decrypt_after_encrypt [OF g])
  }
qed

lemma well_formed_hi: "well_formed (js ''hi'')" "hd (js ''hi'') \<noteq> 0xFEFF"
  by (simp_all add: js_def is_lead_surrogate_def is_trail_surrogate_def)

lemma length_encode_hi:
  "length (TextEncoder_encode (js ''hi'')) = 2"
  "length (TextEncoder_encode (0xFEFF # js ''hi'')) = 5"
  by (simp_all add: TextEncoder_encode_def js_def utf8_encode_scalar_def is_lead_surrogate_def
      is_trail_surrogate_def)

theorem decrypt_encrypt_roundtrip_witness:
  "gcm_correct toy_crypto \<and> well_formed (js ''hi'') \<and> hd (js ''hi'') \<noteq> 0xFEFF \<and>
   length (TextEncoder_encode (0xFEFF # js ''hi'')) + 44 \<le> max_arguments toy_crypto \<and>
   isl (encryptAES256 toy_crypto (js ''hi'') (js ''pw'') counting_rng) = False \<and>
   decryptAES256 toy_crypto
     (encrypted (fst (projr (encryptAES256 toy_crypto (js ''hi'') (js ''pw'') counting_rng))))
     (js ''pw'') = Inr (js ''hi'') \<and>
   decryptAES256 toy_crypto
     (encrypted (fst (projr (encryptAES256 toy_crypto (0xFEFF # js ''hi'') (js ''pw'')
        counting_rng))))
     (js ''pw'') = Inr (js ''hi'') \<and>
   encryptAES256 toy_crypto (replicate 65492 0x61) (js ''pw'') counting_rng = Inl RangeError"
  using decrypt_encrypt_roundtrip [of toy_crypto "js ''hi''" "js ''pw''" counting_rng]
    decrypt_encrypt_roundtrip [of toy_crypto "replicate 65492 0x61" "js ''pw''" counting_rng]
    toy_gcm_correct well_formed_hi length_encode_hi max_arguments_toy
  by (simp add: length_encode_letters)

lemma utf8_decode_ascii:
  "list_all (\<lambda>n. n \<le> 0x7F) ns \<Longrightarrow> utf8_decode utf8_initial ns = ns"
proof (induction ns)
  case Nil
  show ?case by (simp add: utf8_decode.simps utf8_initial_def)
next
  case (Cons n ns)
  then have "utf8_decode utf8_initial (n # ns) = n # utf8_decode utf8_initial ns"
    by (subst utf8_decode.simps) (simp add: utf8_initial_def)
  with Cons show ?case by simp
qed

lemma utf16_encode_bmp:
  "list_all (\<lambda>n. n < 0x10000) ns \<Longrightarrow> concat (map utf16_encode_scalar ns) = map of_nat ns"
  by (induction ns) (simp_all add: utf16_encode_scalar_def)

lemma TextDecoder_decode_TextEncoder_encode_ascii:
  assumes "is_ascii s"
  shows "TextDecoder_decode (TextEncoder_encode s) = s"
proof -
  have small: "list_all (\<lambda>n. n \<le> 0x7F) (map unat s)"
    using assms by (auto simp: is_ascii_def list_all_iff word_less_nat_alt)
  then have bmp: "list_all (\<lambda>n. n < 0x10000) (map unat s)"
    by (auto simp: list_all_iff)
  have "strip_BOM (map unat s) = map unat s"
    using small by (cases s) (auto simp: strip_BOM_def)
  moreover have "map of_nat (map unat s) = s"
    by (induction s) simp_all
  ultimately show ?thesis
    by (simp only: TextDecoder_decode_def TextEncoder_encode_ascii [OF assms]
        utf8_decode_ascii [OF small] utf16_encode_bmp [OF bmp])
qed

lemma b64_char_ascii: "n < 64 \<Longrightarrow> b64_char n < 0x80"
  by (simp add: word_less_nat_alt unat_b64_char) (auto simp: b64_code_def)

lemma is_ascii_b64_encode: "is_ascii (b64_encode (map unat (bs :: bytes)))"
  using sextets_bound [OF list_all_unat_byte, of bs]
  by (simp add: is_ascii_def b64_encode_def list_all_iff b64_char_ascii)

lemma length_b64_encode_32: "length bs = 32 \<Longrightarrow> length (b64_encode bs) = 44"
  by (simp add: b64_encode_def length_sextets)

lemma b64_encode_nonempty: "bs \<noteq> [] \<Longrightarrow> b64_encode bs \<noteq> []"
  by (cases bs rule: sextets.cases) (simp_all add: b64_encode_def)

text \<open>
  For a generated key pair of 2048 or 4096 bits, both exported keys can be imported,
  and RSA-OAEP with SHA-256 encrypts every payload of at most \<open>bits / 8 - 66\<close> bytes
  to a ciphertext as long as the modulus that the private key decrypts to the payload.
\<close>

definition rsa_correct :: "platform \<Rightarrow> bool" where
  "rsa_correct W =
     (\<forall>bits r seed data.
        (bits = 2048 \<or> bits = 4096) \<and> length seed = 32 \<and> length data + 66 \<le> bits div 8 \<longrightarrow>
        (\<exists>pk sk ct.
           rsa_import_spki W (fst (rsa_oaep_generate W bits r)) = Inr pk \<and>
           rsa_import_pkcs8 W (snd (rsa_oaep_generate W bits r)) = Inr sk \<and>
           rsa_oaep_seal W pk seed data = Inr ct \<and> length ct = bits div 8 \<and>
           rsa_oaep_open W sk ct = Inr data))"

lemma generateRSAKeyPair_Inr:
  assumes "generateRSAKeyPair W bits now r = Inr K"
  shows "publicKey K = b64_encode (map unat (fst (rsa_oaep_generate W bits r)))"
    and "privateKey K = b64_encode (map unat (snd (rsa_oaep_generate W bits r)))"
  using assms
  by (auto simp: generateRSAKeyPair_def case_prod_beta fromCharCode_spread_def await_def
      btoa_fromCharCode split: if_splits)

lemma hybrid_roundtrip:
  fixes W bits now r0 K T r
  assumes gcm: "gcm_correct W" and rsa: "rsa_correct W"
    and bits: "bits = 2048 \<or> bits = 4096"
    and K: "generateRSAKeyPair W bits now r0 = Inr K"
  shows "max_arguments W < length (TextEncoder_encode T) + 44 \<or> max_arguments W < bits div 8 \<Longrightarrow>
           hybridEncrypt W T (publicKey K) r = Inl RangeError"
    and "length (TextEncoder_encode T) + 44 \<le> max_arguments W \<Longrightarrow>
         bits div 8 \<le> max_arguments W \<Longrightarrow>
           isl (hybridEncrypt W T (publicKey K) r) = False \<and>
           hybridDecrypt W (encrypted (fst (projr (hybridEncrypt W T (publicKey K) r))))
             (privateKey K) (metadata (fst (projr (hybridEncrypt W T (publicKey K) r)))) =
           Inr (TextDecoder_decode (TextEncoder_encode T))"
proof -
  let ?spki = "fst (rsa_oaep_generate W bits r0)"
  let ?pkcs8 = "snd (rsa_oaep_generate W bits r0)"
  let ?aesKey = "fst (getRandomValues 32 r)"
  let ?r1 = "snd (getRandomValues 32 r)"
  let ?b64 = "b64_encode (map unat ?aesKey)"
  let ?data = "TextEncoder_encode ?b64"
  let ?r2 = "snd (getRandomValues 12 (snd (getRandomValues 16 ?r1)))"
  let ?seed = "fst (getRandomValues 32 ?r2)"
  have pub: "publicKey K = b64_encode (map unat ?spki)"
    and priv: "privateKey K = b64_encode (map unat ?pkcs8)"
    using generateRSAKeyPair_Inr [OF K] by simp_all
  have ascii: "is_ascii ?b64"
    by (rule is_ascii_b64_encode)
  have "length ?data = 44"
    by (simp add: length_TextEncoder_encode_ascii [OF ascii] length_b64_encode_32
        length_getRandomValues)
  with bits have fit: "length ?data + 66 \<le> bits div 8" by auto
  have seed: "length ?seed = 32" by (simp add: length_getRandomValues)
  from rsa bits seed fit have "\<exists>pk sk ct.
      rsa_import_spki W ?spki = Inr pk \<and> rsa_import_pkcs8 W ?pkcs8 = Inr sk \<and>
      rsa_oaep_seal W pk ?seed ?data = Inr ct \<and> length ct = bits div 8 \<and>
      rsa_oaep_open W sk ct = Inr ?data"
    unfolding rsa_correct_def by blast
  then obtain pk sk ct where
    pk: "rsa_import_spki W ?spki = Inr pk" and sk: "rsa_import_pkcs8 W ?pkcs8 = Inr sk"
    and seal: "rsa_oaep_seal W pk ?seed ?data = Inr ct" and ct: "length ct = bits div 8"
    and op: "rsa_oaep_open W sk ct = Inr ?data"
    by blast
  have key: "length ?aesKey = 32" by (simp add: length_getRandomValues)
  have encRSA_fit: "encryptRSA W ?b64 (publicKey K) ?seed = Inr (b64_encode (map unat ct))"
    if "bits div 8 \<le> max_arguments W"
    using that
    by (simp add: encryptRSA_def pub atob_b64_encode_bytes await_Inr Let_def
        charCodes_fromCharCode pk seal spread_btoa ct)
  have encRSA_over: "encryptRSA W ?b64 (publicKey K) ?seed = Inl RangeError"
    if "max_arguments W < bits div 8"
    using that
    by (simp add: encryptRSA_def pub atob_b64_encode_bytes await_Inr Let_def
        charCodes_fromCharCode pk seal spread_overflow ct)
  show "hybridEncrypt W T (publicKey K) r = Inl RangeError"
    if o: "max_arguments W < length (TextEncoder_encode T) + 44 \<or> max_arguments W < bits div 8"
  proof (cases "max_arguments W < 32")
    case True
    then have "await (fromCharCode_spread W ?aesKey) btoa = Inl RangeError"
      by (simp add: spread_overflow key)
    then show ?thesis
      by (simp add: hybridEncrypt_def case_prod_beta await_Inl)
  next
    case False
    then have k: "await (fromCharCode_spread W ?aesKey) btoa = Inr ?b64"
      by (simp add: spread_btoa key)
    show ?thesis
    proof (cases "max_arguments W < length (TextEncoder_encode T) + 44")
      case True
      then have "encryptAES256 W T ?b64 ?r1 = Inl RangeError"
        by (rule encryptAES256_returns(2) [OF gcm])
      then show ?thesis
        by (simp add: hybridEncrypt_def case_prod_beta k await_Inr await_Inl)
    next
      case False
      with o have b: "max_arguments W < bits div 8" by simp
      from False obtain res where aes: "encryptAES256 W T ?b64 ?r1 = Inr (res, ?r2)"
        using encryptAES256_fit [OF gcm, of T ?b64 ?r1] by auto
      show ?thesis
        by (simp add: hybridEncrypt_def case_prod_beta k aes encRSA_over [OF b] await_Inr
            await_Inl)
    qed
  qed
  show "isl (hybridEncrypt W T (publicKey K) r) = False \<and>
        hybridDecrypt W (encrypted (fst (projr (hybridEncrypt W T (publicKey K) r))))
          (privateKey K) (metadata (fst (projr (hybridEncrypt W T (publicKey K) r)))) =
        Inr (TextDecoder_decode (TextEncoder_encode T))"
    if f: "length (TextEncoder_encode T) + 44 \<le> max_arguments W"
      and b: "bits div 8 \<le> max_arguments W"
  proof -
    from f have k: "await (fromCharCode_spread W ?aesKey) btoa = Inr ?b64"
      by (simp add: spread_btoa key)
    from f obtain res where aes: "encryptAES256 W T ?b64 ?r1 = Inr (res, ?r2)"
      using encryptAES256_fit [OF gcm, of T ?b64 ?r1] by auto
    have he: "hybridEncrypt W T (publicKey K) r =
        Inr (\<lparr>encrypted = encrypted res, iv = iv res, salt = salt res,
              metadata = Some \<lparr>encryptedKey = Some (b64_encode (map unat ct)),
                                algorithm = Some (js ''hybrid'')\<rparr>\<rparr>,
             snd (getRandomValues 32 ?r2))"
      by (simp add: hybridEncrypt_def case_prod_beta k aes encRSA_fit [OF b] await_Inr)
    have "ct \<noteq> []"
      using ct bits by auto
    then have ne: "b64_encode (map unat ct) \<noteq> []"
      by (simp add: b64_encode_nonempty)
    have decRSA: "decryptRSA W (b64_encode (map unat ct)) (privateKey K) = Inr ?b64"
      by (simp add: decryptRSA_def priv atob_b64_encode_bytes await_Inr Let_def
          charCodes_fromCharCode sk op TextDecoder_decode_TextEncoder_encode_ascii [OF ascii])
    have "decryptAES256 W (encrypted res) ?b64 = Inr (TextDecoder_decode (TextEncoder_encode T))"
      using decrypt_after_encrypt [OF gcm f, of ?b64 ?r1] by (simp add: aes)
    then show ?thesis
      by (simp add: he hybridDecrypt_def ne decRSA await_Inr)
  qed
qed

lemma dropWhile_zeros:
  "dropWhile (\<lambda>b. b = 0) (replicate m (0 :: u8) @ 1 # xs) = 1 # xs"
  by (induction m) simp_all

lemma toy_rsa_correct: "rsa_correct toy_crypto"
  by (auto simp: rsa_correct_def toy_crypto_def dropWhile_zeros)

text \<open>
  Claim C2 on the code. For a generated key pair \<open>K\<close> of 2048 or 4096 bits and
  correct primitives, \<open>hybridEncrypt\<close> returns exactly when the engine accepts the
  symmetric envelope and the encrypted session key as the arguments of one call, and
  throws a \<open>RangeError\<close> otherwise; the session key always fits under the OAEP
  ceiling. When it returns, \<open>hybridDecrypt\<close> with the private key and the metadata
  of the result returns exactly the text when the text is well-formed and does not
  begin with U+FEFF. A text that begins with U+FEFF loses it, as in
  \<open>decryptAES256\<close>.
\<close>

theorem hybrid_roundtrip_BOM:
  "gcm_correct W \<and> rsa_correct W \<and> (bits = 2048 \<or> bits = 4096) \<and>
   generateRSAKeyPair W bits now r0 = Inr K \<longrightarrow>
     isl (hybridEncrypt W T (publicKey K) r) =
       (max_arguments W < length (TextEncoder_encode T) + 44 \<or> max_arguments W < bits div 8) \<and>
     (max_arguments W < length (TextEncoder_encode T) + 44 \<or> max_arguments W < bits div 8 \<longrightarrow>
        hybridEncrypt W T (publicKey K) r = Inl RangeError) \<and>
     (let res = fst (projr (hybridEncrypt W T (publicKey K) r))
      in length (TextEncoder_encode T) + 44 \<le> max_arguments W \<and>
         bits div 8 \<le> max_arguments W \<and>
         well_formed T \<and> (T = [] \<or> hd T \<noteq> 0xFEFF) \<longrightarrow>
           hybridDecrypt W (encrypted res) (privateKey K) (metadata res) = Inr T) \<and>
     (let res = fst (projr (hybridEncrypt W (0xFEFF # T) (publicKey K) r))
      in length (TextEncoder_encode (0xFEFF # T)) + 44 \<le> max_arguments W \<and>
         bits div 8 \<le> max_arguments W \<and> well_formed T \<longrightarrow>
           hybridDecrypt W (encrypted res) (privateKey K) (metadata res) = Inr T)"
proof (intro impI, elim conjE)
  assume a: "gcm_correct W" "rsa_correct W" "bits = 2048 \<or> bits = 4096"
    "generateRSAKeyPair W bits now r0 = Inr K"
  let ?over = "max_arguments W < length (TextEncoder_encode T) + 44 \<or>
    max_arguments W < bits div 8"
  have o: "hybridEncrypt W T (publicKey K) r = Inl RangeError" if ?over
    using that by (rule hybrid_roundtrip(1) [OF a])
  have f: "isl (hybridEncrypt W T (publicKey K) r) = False" if "\<not> ?over"
    using that hybrid_roundtrip(2) [OF a, of T r] by (simp add: not_less)
  have i: "isl (hybridEncrypt W T (publicKey K) r) = ?over"
  proof (cases ?over)
    case True
    with o show ?thesis by simp
  next
    case False
    with f show ?thesis by simp
  qed
  have p: "hybridDecrypt W (encrypted (fst (projr (hybridEncrypt W T (publicKey K) r))))
         (privateKey K) (metadata (fst (projr (hybridEncrypt W T (publicKey K) r)))) = Inr T"
    if "length (TextEncoder_encode T) + 44 \<le> max_arguments W \<and>
        bits div 8 \<le> max_arguments W \<and> well_formed T \<and> (T = [] \<or> hd T \<noteq> 0xFEFF)"
  proof -
    from that have "TextDecoder_decode (TextEncoder_encode T) = T"
      by (cases T) (auto simp: TextDecoder_decode_TextEncoder_encode)
    with that hybrid_roundtrip(2) [OF a, of T r] show ?thesis by simp
  qed
  have q: "hybridDecrypt W
         (encrypted (fst (projr (hybridEncrypt W (0xFEFF # T) (publicKey K) r))))
         (privateKey K)
         (metadata (fst (projr (hybridEncrypt W (0xFEFF # T) (publicKey K) r)))) = Inr T"
    if "length (TextEncoder_encode (0xFEFF # T)) + 44 \<le> max_arguments W \<and>
        bits div 8 \<le> max_arguments W \<and> well_formed T"
  proof -
    from that have "TextDecoder_decode (TextEncoder_encode (0xFEFF # T)) = T"
      by (simp add: TextDecoder_decode_TextEncoder_encode well_formed_BOM)
    with that hybrid_roundtrip(2) [OF a, of "0xFEFF # T" r] show ?thesis by simp
  qed
  from i o p q
  show "isl (hybridEncrypt W T (publicKey K) r) =
       (max_arguments W < length (TextEncoder_encode T) + 44 \<or> max_arguments W < bits div 8) \<and>
     (max_arguments W < length (TextEncoder_encode T) + 44 \<or> max_arguments W < bits div 8 \<longrightarrow>
        hybridEncrypt W T (publicKey K) r = Inl RangeError) \<and>
     (let res = fst (projr (hybridEncrypt W T (publicKey K) r))
      in length (TextEncoder_encode T) + 44 \<le> max_arguments W \<and>
         bits div 8 \<le> max_arguments W \<and>
         well_formed T \<and> (T = [] \<or> hd T \<noteq> 0xFEFF) \<longrightarrow>
           hybridDecrypt W (encrypted res) (privateKey K) (metadata res) = Inr T) \<and>
     (let res = fst (projr (hybridEncrypt W (0xFEFF # T) (publicKey K) r))
      in length (TextEncoder_encode (0xFEFF # T)) + 44 \<le> max_arguments W \<and>
         bits div 8 \<le> max_arguments W \<and> well_formed T \<longrightarrow>
           hybridDecrypt W (encrypted res) (privateKey K) (metadata res) = Inr T)"
    unfolding Let_def by blast
qed

lemma toy_keypair:
  "generateRSAKeyPair toy_crypto 2048 [] counting_rng =
     Inr \<lparr>publicKey = js ''CA=='', privateKey = js ''CA=='', keySize = 2048, created = []\<rparr>"
  by (simp add: generateRSAKeyPair_def toy_crypto_def fromCharCode_spread_def await_def
      btoa_def fromCharCode_def b64_encode_def b64_char_def b64_code_def js_def
      replicate_numeral)

theorem hybrid_roundtrip_BOM_witness:
  "(let K = \<lparr>publicKey = js ''CA=='', privateKey = js ''CA=='', keySize = 2048, created = []\<rparr>
    in gcm_correct toy_crypto \<and> rsa_correct toy_crypto \<and>
       generateRSAKeyPair toy_crypto 2048 [] counting_rng = Inr K \<and>
       well_formed (js ''hi'') \<and> hd (js ''hi'') \<noteq> 0xFEFF \<and>
       length (TextEncoder_encode (0xFEFF # js ''hi'')) + 44 \<le> max_arguments toy_crypto \<and>
       isl (hybridEncrypt toy_crypto (js ''hi'') (publicKey K) counting_rng) = False \<and>
       (let res = fst (projr (hybridEncrypt toy_crypto (js ''hi'') (publicKey K) counting_rng))
        in hybridDecrypt toy_crypto (encrypted res) (privateKey K) (metadata res) =
             Inr (js ''hi'')) \<and>
       (let res = fst (projr (hybridEncrypt toy_crypto (0xFEFF # js ''hi'') (publicKey K)
                    counting_rng))
        in hybridDecrypt toy_crypto (encrypted res) (privateKey K) (metadata res) =
             Inr (js ''hi'')) \<and>
       hybridEncrypt toy_crypto (replicate 65492 0x61) (publicKey K) counting_rng =
         Inl RangeError)"
  using hybrid_roundtrip_BOM [of toy_crypto 2048 "[]" counting_rng
      "\<lparr>publicKey = js ''CA=='', privateKey = js ''CA=='', keySize = 2048, created = []\<rparr>"
      "js ''hi''" counting_rng]
    hybrid_roundtrip_BOM [of toy_crypto 2048 "[]" counting_rng
      "\<lparr>publicKey = js ''CA=='', privateKey = js ''CA=='', keySize = 2048, created = []\<rparr>"
      "replicate 65492 0x61" counting_rng]
    toy_gcm_correct toy_rsa_correct toy_keypair well_formed_hi length_encode_hi
    max_arguments_toy
  unfolding Let_def
  by (simp add: length_encode_letters)

end
